theory Spec2Isabelle
  imports Main "HOL-Library.Word" "HOL-Library.Char_ord" "HOL-Library.List_Lexorder" "HOL-Library.Product_Lexorder"
begin

unbundle bit_operations_syntax

section \<open>RelayUpdater: the release pipeline of \<^verbatim>\<open>updater.go\<close>\<close>

subsection \<open>Data model\<close>

text \<open>
  \<^verbatim>\<open>type downloadInfo struct { Link string; Checksum string }\<close> and
  \<^verbatim>\<open>type Entry struct { Version string; Date int64; Links []downloadInfo }\<close>.
  A Go string is a sequence of bytes, here a \<^typ>\<open>string\<close>; \<^verbatim>\<open>int64\<close> is a 64-bit word.
\<close>

record downloadInfo =
  Link :: string
  Checksum :: string

record Entry =
  Version :: string
  Date :: "64 word"
  Links :: "downloadInfo list"

subsection \<open>Manifest update\<close>

text \<open>
  \<^verbatim>\<open>upsertEntry\<close> walks the slice from index 0; at the first entry whose version equals the
  new entry's it stores the new entry at that index and returns; when the loop ends
  without a match it appends.
\<close>

fun upsertEntry :: "Entry list \<Rightarrow> Entry \<Rightarrow> Entry list" where
  "upsertEntry [] newEntry = [newEntry]"
| "upsertEntry (e # entries) newEntry =
     (if Version e = Version newEntry then newEntry # entries
      else e # upsertEntry entries newEntry)"

subsection \<open>Errors\<close>

text \<open>
  The Go code passes \<^verbatim>\<open>error\<close> values up to \<^verbatim>\<open>main\<close>, which prints them and exits with
  status 1. The model names an error by where it is made: \<open>NotExist\<close> is an operating
  system error for which \<^verbatim>\<open>os.IsNotExist\<close> holds, \<open>IOError\<close> any other operating system
  error, and the others are the errors built or reported at one place of the source each.
\<close>

datatype error =
    NotExist | IOError | ManifestCorrupt | InvalidVersion | BuildScriptMissing | BuildFailed
  | NoArtifactsFound | RemoteDirError | TransferError | AliasUpdateError

subsection \<open>Strings and paths of the Go standard library\<close>

text \<open>\<^verbatim>\<open>strings.Split(s, sep)\<close> for a separator of one byte.\<close>

fun strings_Split :: "char \<Rightarrow> string \<Rightarrow> string list" where
  "strings_Split sep [] = [[]]"
| "strings_Split sep (c # s) =
     (if c = sep then [] # strings_Split sep s
      else (case strings_Split sep s of [] \<Rightarrow> [[c]] | p # ps \<Rightarrow> (c # p) # ps))"

text \<open>\<^verbatim>\<open>strings.Join(elems, sep)\<close>.\<close>

fun strings_Join :: "string list \<Rightarrow> string \<Rightarrow> string" where
  "strings_Join [] sep = []"
| "strings_Join [e] sep = e"
| "strings_Join (e # es) sep = e @ sep @ strings_Join es sep"

text \<open>
  \<^verbatim>\<open>filepath.Ext\<close> scans the path from its last byte towards the front, stops at a
  separator, and returns the suffix that starts at the first dot it meets, or the empty
  string. \<open>ext_scan\<close> takes the bytes still to scan, reversed, and the suffix passed so far.
\<close>

fun ext_scan :: "string \<Rightarrow> string \<Rightarrow> string" where
  "ext_scan [] suffix = []"
| "ext_scan (c # r) suffix =
     (if c = CHR ''/'' then []
      else if c = CHR ''.'' then c # suffix
      else ext_scan r (c # suffix))"

definition filepath_Ext :: "string \<Rightarrow> string" where
  "filepath_Ext path = ext_scan (rev path) []"

text \<open>\<^verbatim>\<open>strings.HasSuffix\<close> and \<^verbatim>\<open>strings.TrimSuffix\<close>.\<close>

definition strings_HasSuffix :: "string \<Rightarrow> string \<Rightarrow> bool" where
  "strings_HasSuffix s suffix =
     (length suffix \<le> length s \<and> drop (length s - length suffix) s = suffix)"

definition strings_TrimSuffix :: "string \<Rightarrow> string \<Rightarrow> string" where
  "strings_TrimSuffix s suffix =
     (if strings_HasSuffix s suffix then take (length s - length suffix) s else s)"

text \<open>
  \<^verbatim>\<open>strings.EqualFold\<close> compares under Unicode simple case folding. The source calls it
  with the constant \<^verbatim>\<open>".zip"\<close> only, whose letters fold to their ASCII upper case and to
  nothing else, so a byte outside ASCII never matches; folding the ASCII letters is then
  the whole comparison.
\<close>

definition ascii_lower :: "char \<Rightarrow> char" where
  "ascii_lower c =
     (case map_of (zip ''ABCDEFGHIJKLMNOPQRSTUVWXYZ'' ''abcdefghijklmnopqrstuvwxyz'') c of
        Some l \<Rightarrow> l
      | None \<Rightarrow> c)"

definition strings_EqualFold :: "string \<Rightarrow> string \<Rightarrow> bool" where
  "strings_EqualFold s t = (map ascii_lower s = map ascii_lower t)"

text \<open>
  \<^verbatim>\<open>filepath.Clean\<close> on a Unix path, by components: empty and \<^verbatim>\<open>.\<close> components go, a
  \<^verbatim>\<open>..\<close> removes the component before it unless that is itself a kept \<^verbatim>\<open>..\<close>, a \<^verbatim>\<open>..\<close> at
  the front of a rooted path goes, and the empty result is \<^verbatim>\<open>.\<close>. \<open>clean_step\<close> keeps the
  components written so far, last first.
\<close>

fun clean_step :: "bool \<Rightarrow> string list \<Rightarrow> string \<Rightarrow> string list" where
  "clean_step rooted out c =
     (if c = [] \<or> c = ''.'' then out
      else if c = ''..'' then
        (case out of
           [] \<Rightarrow> if rooted then [] else [''..'']
         | last_c # below \<Rightarrow> if last_c = ''..'' then ''..'' # out else below)
      else c # out)"

definition filepath_Clean :: "string \<Rightarrow> string" where
  "filepath_Clean path =
     (if path = [] then ''.''
      else
        (let rooted = (hd path = CHR ''/'');
             out = rev (foldl (clean_step rooted) [] (strings_Split CHR ''/'' path));
             res = (if rooted then ''/'' else []) @ strings_Join out ''/''
         in if res = [] then ''.'' else res))"

text \<open>
  \<^verbatim>\<open>filepath.Join\<close>: the elements from the first non-empty one on, joined by the
  separator and cleaned; the empty string when every element is empty.
\<close>

definition filepath_Join :: "string list \<Rightarrow> string" where
  "filepath_Join elem =
     (case dropWhile (\<lambda>e. e = []) elem of
        [] \<Rightarrow> []
      | e # es \<Rightarrow> filepath_Clean (strings_Join (e # es) ''/''))"

text \<open>\<^verbatim>\<open>hex.EncodeToString\<close>: two digits of \<^verbatim>\<open>0123456789abcdef\<close> for each byte.\<close>

definition hextable :: string where
  "hextable = ''0123456789abcdef''"

fun hex_EncodeToString :: "string \<Rightarrow> string" where
  "hex_EncodeToString [] = []"
| "hex_EncodeToString (b # bs) =
     hextable ! ((of_char b :: nat) div 16) # hextable ! ((of_char b :: nat) mod 16) # hex_EncodeToString bs"

subsection \<open>The local file system\<close>

text \<open>
  A regular file has its bytes and its mode bits (\<^verbatim>\<open>os.FileMode\<close>, a \<^verbatim>\<open>uint32\<close>); a directory
  entry, as \<^verbatim>\<open>os.ReadDir\<close> yields it, has a name and says whether it is a directory.

  The state of the machine holds the regular files by path; the directories by path, each
  with the listing that \<^verbatim>\<open>os.ReadDir\<close> yields for it (the pipeline lists one directory,
  once, and before it copies; the copies do not maintain the listings); the permission bits
  of the directory at a path; the process's umask; whether the process runs as the
  superuser; the paths that cannot be opened for reading and those where nothing can be
  created or opened for writing, whatever the mode bits say; and the external commands run
  so far. A path that is both a directory and a regular file counts as a directory. The
  files belong to the user of the process, so the owner's bits of a mode decide what the
  process may do with a file unless it is the superuser.
\<close>

record regfile =
  Content :: string
  Mode :: "32 word"

record dirent =
  Name :: string
  IsDir :: bool

record cmd =
  prog :: string
  args :: "string list"

record world =
  fs_files :: "string \<rightharpoonup> regfile"
  fs_dirs :: "string \<rightharpoonup> dirent list"
  fs_dirmode :: "string \<Rightarrow> 32 word"
  fs_umask :: "32 word"
  fs_superuser :: bool
  fs_rdenied :: "string \<Rightarrow> bool"
  fs_wdenied :: "string \<Rightarrow> bool"
  issued :: "cmd list"

text \<open>
  The directory a path lies in, as \<^verbatim>\<open>filepath.Dir\<close> gives it: the text up to the last
  separator, cleaned. The working directory, the root and the directories above the working
  directory are always there; any other directory is there when the machine holds it.
\<close>

definition filepath_Dir :: "string \<Rightarrow> string" where
  "filepath_Dir path = filepath_Clean (rev (dropWhile (\<lambda>c. c \<noteq> CHR ''/'') (rev path)))"

definition is_dir :: "world \<Rightarrow> string \<Rightarrow> bool" where
  "is_dir w d =
     (d = ''.'' \<or> d = ''/'' \<or> list_all (\<lambda>c. c = ''..'') (strings_Split CHR ''/'' d) \<or> fs_dirs w d \<noteq> None)"

text \<open>Permission to read and to write a file of mode \<open>m\<close>: bits 0400 and 0200.\<close>

definition may_read :: "world \<Rightarrow> string \<Rightarrow> 32 word \<Rightarrow> bool" where
  "may_read w path m = (\<not> fs_rdenied w path \<and> (fs_superuser w \<or> m AND 256 \<noteq> 0))"

definition may_write :: "world \<Rightarrow> string \<Rightarrow> 32 word \<Rightarrow> bool" where
  "may_write w path m = (\<not> fs_wdenied w path \<and> (fs_superuser w \<or> m AND 128 \<noteq> 0))"

text \<open>
  \<^verbatim>\<open>os.Open\<close>: what is at the path, opened for reading. A directory can be opened; reading
  from it is then an error. Where there is nothing, the error is one for which
  \<^verbatim>\<open>os.IsNotExist\<close> holds, unless the path leads through a regular file.
\<close>

datatype opened = OpenedFile regfile | OpenedDir "32 word"

definition os_Open :: "world \<Rightarrow> string \<Rightarrow> error + opened" where
  "os_Open w path =
     (case fs_dirs w path of
        Some entries \<Rightarrow> if fs_rdenied w path then Inl IOError else Inr (OpenedDir (fs_dirmode w path))
      | None \<Rightarrow>
          (case fs_files w path of
             None \<Rightarrow>
               if \<not> is_dir w (filepath_Dir path) \<and> fs_files w (filepath_Dir path) \<noteq> None then Inl IOError
               else Inl NotExist
           | Some f \<Rightarrow> if may_read w path (Mode f) then Inr (OpenedFile f) else Inl IOError))"

text \<open>\<^verbatim>\<open>(*File).Stat\<close> followed by \<^verbatim>\<open>Mode\<close>, as far as \<^verbatim>\<open>os.OpenFile\<close> uses it: the permission bits.\<close>

definition opened_Mode :: "opened \<Rightarrow> 32 word" where
  "opened_Mode h = (case h of OpenedFile f \<Rightarrow> Mode f | OpenedDir m \<Rightarrow> m)"

text \<open>
  \<^verbatim>\<open>os.OpenFile(path, O_CREATE|O_WRONLY|O_TRUNC, perm)\<close>: a directory cannot be opened for
  writing; a file that exists is emptied and keeps its mode, when the process may write it;
  a file that does not is created empty with mode \<open>perm\<close> less the umask, when the directory
  it lies in is there and the file can be created.
\<close>

definition os_OpenFile_create_trunc :: "world \<Rightarrow> string \<Rightarrow> 32 word \<Rightarrow> world \<times> error option" where
  "os_OpenFile_create_trunc w path perm =
     (if fs_dirs w path \<noteq> None then (w, Some IOError)
      else
        (case fs_files w path of
           Some old \<Rightarrow>
             if may_write w path (Mode old)
             then (w\<lparr>fs_files := (fs_files w)(path \<mapsto> \<lparr>Content = [], Mode = Mode old\<rparr>)\<rparr>, None)
             else (w, Some IOError)
         | None \<Rightarrow>
             if \<not> is_dir w (filepath_Dir path)
             then (w, Some (if fs_files w (filepath_Dir path) \<noteq> None then IOError else NotExist))
             else if fs_wdenied w path then (w, Some IOError)
             else (w\<lparr>fs_files := (fs_files w)(path \<mapsto> \<lparr>Content = [], Mode = perm AND NOT (fs_umask w)\<rparr>)\<rparr>,
                   None)))"

text \<open>
  \<^verbatim>\<open>io.Copy(df, sf)\<close>: the bytes the source path holds now become the content of the
  destination; reading from a directory is an error. Failures in the middle of a copy are
  not modelled.
\<close>

definition io_Copy :: "world \<Rightarrow> string \<Rightarrow> string \<Rightarrow> world \<times> error option" where
  "io_Copy w dst src =
     (if fs_dirs w src \<noteq> None then (w, Some IOError)
      else
        (case (fs_files w dst, fs_files w src) of
           (Some df, Some sf) \<Rightarrow>
             (w\<lparr>fs_files := (fs_files w)(dst \<mapsto> \<lparr>Content = Content sf, Mode = Mode df\<rparr>)\<rparr>, None)
         | _ \<Rightarrow> (w, Some IOError)))"

definition os_ReadDir :: "world \<Rightarrow> string \<Rightarrow> error + dirent list" where
  "os_ReadDir w dir = (case fs_dirs w dir of None \<Rightarrow> Inl NotExist | Some entries \<Rightarrow> Inr entries)"

subsection \<open>Staging\<close>

definition copyFile :: "world \<Rightarrow> string \<Rightarrow> string \<Rightarrow> world \<times> error option" where
  "copyFile w src dst =
     (case os_Open w src of
        Inl e \<Rightarrow> (w, Some e)
      | Inr sf \<Rightarrow>
          (case os_OpenFile_create_trunc w dst (opened_Mode sf) of
             (w', Some e) \<Rightarrow> (w', Some e)
           | (w', None) \<Rightarrow> io_Copy w' dst src))"

text \<open>
  The loop of \<^verbatim>\<open>collectAndRenameZips\<close> over the directory entries, with the state of the
  machine and the slice \<^verbatim>\<open>out\<close> built so far; a failed copy returns at once.
\<close>

fun stage_loop ::
  "world \<Rightarrow> string \<Rightarrow> string \<Rightarrow> string \<Rightarrow> dirent list \<Rightarrow> string list \<Rightarrow> world \<times> (error + string list)" where
  "stage_loop w srcDir versionDir ver [] out = (w, Inr out)"
| "stage_loop w srcDir versionDir ver (de # entries) out =
     (if IsDir de then stage_loop w srcDir versionDir ver entries out
      else if strings_EqualFold (filepath_Ext (Name de)) ''.zip'' then
        (let base = strings_TrimSuffix (Name de) (filepath_Ext (Name de));
             newName = base @ ''-'' @ ver @ ''.zip''
         in case copyFile w (filepath_Join [srcDir, Name de]) (filepath_Join [versionDir, newName]) of
              (w', Some e) \<Rightarrow> (w', Inl e)
            | (w', None) \<Rightarrow> stage_loop w' srcDir versionDir ver entries (out @ [newName]))
      else stage_loop w srcDir versionDir ver entries out)"

definition collectAndRenameZips ::
  "world \<Rightarrow> string \<Rightarrow> string \<Rightarrow> string \<Rightarrow> world \<times> (error + string list)" where
  "collectAndRenameZips w srcDir versionDir ver =
     (case os_ReadDir w srcDir of
        Inl e \<Rightarrow> (w, Inl e)
      | Inr entries \<Rightarrow>
          (case stage_loop w srcDir versionDir ver entries [] of
             (w', Inl e) \<Rightarrow> (w', Inl e)
           | (w', Inr out) \<Rightarrow>
               if length out = 0 then (w', Inl NoArtifactsFound) else (w', Inr out)))"

text \<open>
  \<^verbatim>\<open>computeChecksum\<close>: the file's bytes through SHA-256, the digest in hexadecimal. The
  hash function of \<^verbatim>\<open>crypto/sha256\<close> is a parameter, from the bytes to the 32-byte digest.
\<close>

definition computeChecksum :: "(string \<Rightarrow> string) \<Rightarrow> world \<Rightarrow> string \<Rightarrow> error + string" where
  "computeChecksum sha256_Sum w path =
     (case os_Open w path of
        Inl e \<Rightarrow> Inl e
      | Inr (OpenedDir m) \<Rightarrow> Inl IOError
      | Inr (OpenedFile f) \<Rightarrow> Inr (hex_EncodeToString (sha256_Sum (Content f))))"

text \<open>
  The loop of \<^verbatim>\<open>main\<close> that builds the links of the new entry, one for each staged file
  name, with the slice \<^verbatim>\<open>links\<close> built so far; \<^verbatim>\<open>main\<close> exits at the first checksum that
  fails.
\<close>

fun checksum_loop ::
  "(string \<Rightarrow> string) \<Rightarrow> world \<Rightarrow> string \<Rightarrow> string list \<Rightarrow> downloadInfo list \<Rightarrow> error + downloadInfo list" where
  "checksum_loop sha256_Sum w versionDir [] links = Inr links"
| "checksum_loop sha256_Sum w versionDir (f # files) links =
     (let fullPath = filepath_Join [versionDir, f]
      in case computeChecksum sha256_Sum w fullPath of
           Inl e \<Rightarrow> Inl e
         | Inr hexsum \<Rightarrow>
             checksum_loop sha256_Sum w versionDir files (links @ [\<lparr>Link = fullPath, Checksum = hexsum\<rparr>]))"

subsection \<open>Names for what the staging loop computes\<close>

text \<open>
  The test the loop applies to a directory entry, the name it gives the copy, and the two
  paths of a copy, as the body of \<open>stage_loop\<close> writes them.
\<close>

definition selected :: "dirent \<Rightarrow> bool" where
  "selected de = (\<not> IsDir de \<and> strings_EqualFold (filepath_Ext (Name de)) ''.zip'')"

definition stagedName :: "string \<Rightarrow> string \<Rightarrow> string" where
  "stagedName ver n = strings_TrimSuffix n (filepath_Ext n) @ ''-'' @ ver @ ''.zip''"

definition srcPath :: "string \<Rightarrow> dirent \<Rightarrow> string" where
  "srcPath srcDir de = filepath_Join [srcDir, Name de]"

definition dstPath :: "string \<Rightarrow> string \<Rightarrow> dirent \<Rightarrow> string" where
  "dstPath versionDir ver de = filepath_Join [versionDir, stagedName ver (Name de)]"

text \<open>The mode of a file after \<open>os_OpenFile_create_trunc\<close> with creation mode \<open>perm\<close>.\<close>

definition stagedMode :: "world \<Rightarrow> string \<Rightarrow> 32 word \<Rightarrow> 32 word" where
  "stagedMode w dst perm =
     (case fs_files w dst of None \<Rightarrow> perm AND NOT (fs_umask w) | Some old \<Rightarrow> Mode old)"

subsection \<open>Example machines\<close>

text \<open>
  A source directory \<^verbatim>\<open>src\<close> with an archive \<^verbatim>\<open>App.ZIP\<close> of mode 0664, a subdirectory and
  a text file, and the empty directory of version 1.0.0, under umask 022.
\<close>

definition world_upper :: world where
  "world_upper =
     \<lparr>fs_files = [''src/App.ZIP'' \<mapsto> \<lparr>Content = ''PK'', Mode = 436\<rparr>],
      fs_dirs = [''src'' \<mapsto> [\<lparr>Name = ''App.ZIP'', IsDir = False\<rparr>, \<lparr>Name = ''old.zip'', IsDir = True\<rparr>,
                               \<lparr>Name = ''readme.md'', IsDir = False\<rparr>],
                 ''downloads/1.0.0'' \<mapsto> []],
      fs_dirmode = (\<lambda>p. 493), fs_umask = 18, fs_superuser = False,
      fs_rdenied = (\<lambda>p. False), fs_wdenied = (\<lambda>p. False), issued = []\<rparr>"

text \<open>
  The same source directory with an archive \<^verbatim>\<open>client.zip\<close> of mode 0644 instead, and the
  empty directory of version 0.0.1.
\<close>

definition world_client :: world where
  "world_client =
     \<lparr>fs_files = [''src/client.zip'' \<mapsto> \<lparr>Content = ''PK'', Mode = 420\<rparr>],
      fs_dirs = [''src'' \<mapsto> [\<lparr>Name = ''client.zip'', IsDir = False\<rparr>, \<lparr>Name = ''old.zip'', IsDir = True\<rparr>,
                               \<lparr>Name = ''readme.md'', IsDir = False\<rparr>],
                 ''downloads/0.0.1'' \<mapsto> []],
      fs_dirmode = (\<lambda>p. 493), fs_umask = 18, fs_superuser = False,
      fs_rdenied = (\<lambda>p. False), fs_wdenied = (\<lambda>p. False), issued = []\<rparr>"

text \<open>
  A source directory with no archive, only a text file and a directory named like one, and
  the empty directory of version 0.0.1.
\<close>

definition world_empty :: world where
  "world_empty =
     \<lparr>fs_files = [''src/readme.md'' \<mapsto> \<lparr>Content = ''hello'', Mode = 420\<rparr>],
      fs_dirs = [''src'' \<mapsto> [\<lparr>Name = ''old.zip'', IsDir = True\<rparr>, \<lparr>Name = ''readme.md'', IsDir = False\<rparr>],
                 ''downloads/0.0.1'' \<mapsto> []],
      fs_dirmode = (\<lambda>p. 493), fs_umask = 18, fs_superuser = False,
      fs_rdenied = (\<lambda>p. False), fs_wdenied = (\<lambda>p. False), issued = []\<rparr>"

text \<open>
  A source directory, on a file system that tells upper from lower case, with two
  archives whose names differ in the case of the extension only, and the empty directory of
  version 1.0.0.
\<close>

definition world_twins :: world where
  "world_twins =
     \<lparr>fs_files = [''src/a.ZIP'' \<mapsto> \<lparr>Content = ''first'', Mode = 420\<rparr>,
                  ''src/a.zip'' \<mapsto> \<lparr>Content = ''second'', Mode = 420\<rparr>],
      fs_dirs = [''src'' \<mapsto> [\<lparr>Name = ''a.ZIP'', IsDir = False\<rparr>, \<lparr>Name = ''a.zip'', IsDir = False\<rparr>],
                 ''downloads/1.0.0'' \<mapsto> []],
      fs_dirmode = (\<lambda>p. 493), fs_umask = 18, fs_superuser = False,
      fs_rdenied = (\<lambda>p. False), fs_wdenied = (\<lambda>p. False), issued = []\<rparr>"

subsection \<open>Semantic versions\<close>

text \<open>
  The versions are those of the package \<^verbatim>\<open>github.com/Masterminds/semver/v3\<close>, which the
  program imports and which is not part of this repository; what follows renders the
  functions of its \<^verbatim>\<open>version.go\<close> that \<^verbatim>\<open>main\<close> calls. A \<^verbatim>\<open>Version\<close> has three \<^verbatim>\<open>uint64\<close>
  numbers, the pre-release and the build metadata (and the text it was parsed from, which
  none of the functions used here reads).
\<close>

record SemVer =
  major :: "64 word"
  minor :: "64 word"
  patch :: "64 word"
  pre :: string
  metadata :: string

definition num :: string where
  "num = ''0123456789''"

definition allowed :: string where
  "allowed = ''abcdefghijklmnopqrstuvwxyzABCDEFGHIJKLMNOPQRSTUVWXYZ-'' @ num"

definition containsOnly :: "string \<Rightarrow> string \<Rightarrow> bool" where
  "containsOnly s chars = list_all (\<lambda>c. c \<in> set chars) s"

definition isDigit :: "char \<Rightarrow> bool" where
  "isDigit c = (c \<in> set num)"

text \<open>
  \<^verbatim>\<open>strconv.ParseUint(s, 10, 64)\<close>: the value of a non-empty string of decimal digits that
  fits 64 bits; an error otherwise.
\<close>

definition dec_value :: "string \<Rightarrow> nat" where
  "dec_value s = foldl (\<lambda>n c. 10 * n + (of_char c - 48)) 0 s"

definition strconv_ParseUint :: "string \<Rightarrow> 64 word option" where
  "strconv_ParseUint s =
     (if s = [] \<or> \<not> list_all isDigit s then None
      else if dec_value s < 2 ^ 64 then Some (word_of_nat (dec_value s))
      else None)"

text \<open>
  The package matches the whole string against the regular expression
  \<^verbatim>\<open>v?([0-9]+)(\.[0-9]+)?(\.[0-9]+)?(-([0-9A-Za-z\-]+(\.[0-9A-Za-z\-]+)*))?(\+([0-9A-Za-z\-]+(\.[0-9A-Za-z\-]+)*))?\<close>
  and reads the groups 1, 2, 3, 5 and 8. \<open>idents_ok\<close> is the shape of groups 5 and 8;
  \<open>opt_segment\<close> matches an optional group \<^verbatim>\<open>(\.[0-9]+)?\<close> at the head of a string and gives
  the group's text and the rest, or nothing when a dot is there and no digit follows it.
\<close>

definition idents_ok :: "string \<Rightarrow> bool" where
  "idents_ok s = list_all (\<lambda>p. p \<noteq> [] \<and> containsOnly p allowed) (strings_Split CHR ''.'' s)"

definition opt_segment :: "string \<Rightarrow> (string \<times> string) option" where
  "opt_segment s =
     (case s of
        [] \<Rightarrow> Some ([], [])
      | c # r \<Rightarrow>
          if c = CHR ''.'' then
            (if takeWhile isDigit r = [] then None
             else Some (c # takeWhile isDigit r, dropWhile isDigit r))
          else Some ([], s))"

record submatch =
  m1 :: string
  m2 :: string
  m3 :: string
  m5 :: string
  m8 :: string

text \<open>
  \<open>match_pre_meta\<close> matches the last two optional groups against the rest of the string, to
  its end, and gives groups 5 and 8: after a hyphen, the pre-release runs up to the first
  plus sign or the end; after a plus sign, the metadata runs to the end.
\<close>

definition match_pre_meta :: "string \<Rightarrow> (string \<times> string) option" where
  "match_pre_meta r3 =
     (let g5 = (case r3 of [] \<Rightarrow> [] | c # r \<Rightarrow>
                  if c = CHR ''-'' then takeWhile (\<lambda>x. x \<noteq> CHR ''+'') r else []);
          r5 = (case r3 of [] \<Rightarrow> [] | c # r \<Rightarrow>
                  if c = CHR ''-'' then dropWhile (\<lambda>x. x \<noteq> CHR ''+'') r else r3);
          dash = (case r3 of [] \<Rightarrow> False | c # r \<Rightarrow> c = CHR ''-'')
      in if dash \<and> \<not> idents_ok g5 then None
         else
           (case r5 of
              [] \<Rightarrow> Some (g5, [])
            | c # r \<Rightarrow> if c = CHR ''+'' \<and> idents_ok r then Some (g5, r) else None))"

definition versionRegex_match :: "string \<Rightarrow> submatch option" where
  "versionRegex_match v =
     (let s0 = (case v of [] \<Rightarrow> [] | c # r \<Rightarrow> if c = CHR ''v'' then r else v);
          g1 = takeWhile isDigit s0
      in if g1 = [] then None
         else
           (case opt_segment (dropWhile isDigit s0) of
              None \<Rightarrow> None
            | Some (g2, r2) \<Rightarrow>
                (case opt_segment r2 of
                   None \<Rightarrow> None
                 | Some (g3, r3) \<Rightarrow>
                     (case match_pre_meta r3 of
                        None \<Rightarrow> None
                      | Some (g5, g8) \<Rightarrow> Some \<lparr>m1 = g1, m2 = g2, m3 = g3, m5 = g5, m8 = g8\<rparr>))))"

text \<open>
  \<^verbatim>\<open>validatePrerelease\<close>: a part of digits only must not start with a zero unless it is the
  one digit; any other part must be of allowed bytes. \<^verbatim>\<open>validateMetadata\<close>: every part of
  allowed bytes.
\<close>

definition validatePrerelease :: "string \<Rightarrow> bool" where
  "validatePrerelease p =
     list_all (\<lambda>part. if containsOnly part num then \<not> (length part > 1 \<and> hd part = CHR ''0'')
                       else containsOnly part allowed)
       (strings_Split CHR ''.'' p)"

definition validateMetadata :: "string \<Rightarrow> bool" where
  "validateMetadata m = list_all (\<lambda>part. containsOnly part allowed) (strings_Split CHR ''.'' m)"

text \<open>
  \<^verbatim>\<open>NewVersion\<close>: match, then parse the three numbers, a missing minor or patch group being
  0, then validate the pre-release and the metadata when they are not empty. Every error
  is \<open>None\<close>.
\<close>

definition segment_value :: "string \<Rightarrow> 64 word option" where
  "segment_value g = (if g \<noteq> [] then strconv_ParseUint (tl g) else Some 0)"

definition semver_NewVersion :: "string \<Rightarrow> SemVer option" where
  "semver_NewVersion v =
     (case versionRegex_match v of
        None \<Rightarrow> None
      | Some m \<Rightarrow>
          (case strconv_ParseUint (m1 m) of
             None \<Rightarrow> None
           | Some ma \<Rightarrow>
               (case segment_value (m2 m) of
                  None \<Rightarrow> None
                | Some mi \<Rightarrow>
                    (case segment_value (m3 m) of
                       None \<Rightarrow> None
                     | Some pa \<Rightarrow>
                         if m5 m \<noteq> [] \<and> \<not> validatePrerelease (m5 m) then None
                         else if m8 m \<noteq> [] \<and> \<not> validateMetadata (m8 m) then None
                         else Some \<lparr>major = ma, minor = mi, patch = pa, pre = m5 m, metadata = m8 m\<rparr>))))"

text \<open>\<^verbatim>\<open>%d\<close> of an unsigned number, and \<^verbatim>\<open>Version.String\<close>.\<close>

function fmt_d :: "nat \<Rightarrow> string" where
  "fmt_d n = (if n < 10 then [num ! n] else fmt_d (n div 10) @ [num ! (n mod 10)])"
  by pat_completeness auto
termination
  by (relation "measure id") auto

definition semver_String :: "SemVer \<Rightarrow> string" where
  "semver_String v =
     fmt_d (unat (major v)) @ ''.'' @ fmt_d (unat (minor v)) @ ''.'' @ fmt_d (unat (patch v))
     @ (if pre v \<noteq> [] then ''-'' @ pre v else [])
     @ (if metadata v \<noteq> [] then ''+'' @ metadata v else [])"

text \<open>
  \<^verbatim>\<open>comparePrePart\<close>: equal parts compare 0; an empty part is below any other; of two parts
  that \<^verbatim>\<open>strconv.ParseUint\<close> both rejects the greater string is above; a part it accepts is
  below one it rejects; of two parts it accepts the one with the greater number is above.
\<close>

definition comparePrePart :: "string \<Rightarrow> string \<Rightarrow> int" where
  "comparePrePart s o' =
     (if s = o' then 0
      else if s = [] then -1
      else if o' = [] then 1
      else
        (case (strconv_ParseUint o', strconv_ParseUint s) of
           (None, None) \<Rightarrow> if s > o' then 1 else -1
         | (None, Some si) \<Rightarrow> -1
         | (Some oi, None) \<Rightarrow> 1
         | (Some oi, Some si) \<Rightarrow> if si > oi then 1 else -1))"

text \<open>
  The loop of \<^verbatim>\<open>comparePrerelease\<close> over the index \<open>i\<close>, up to the longer of the two lists of
  parts, with the empty string in place of a part that is not there.
\<close>

function comparePrerelease_loop :: "nat \<Rightarrow> string list \<Rightarrow> string list \<Rightarrow> int" where
  "comparePrerelease_loop i sparts oparts =
     (let slen = length sparts; olen = length oparts;
          l = (if olen > slen then olen else slen)
      in if i < l then
           (let stemp = (if i < slen then sparts ! i else []);
                otemp = (if i < olen then oparts ! i else []);
                d = comparePrePart stemp otemp
            in if d \<noteq> 0 then d else comparePrerelease_loop (i + 1) sparts oparts)
         else 0)"
  by pat_completeness auto
termination
  by (relation "measure (\<lambda>(i, sparts, oparts). max (length sparts) (length oparts) - i)")
     (auto split: if_splits)

definition comparePrerelease :: "string \<Rightarrow> string \<Rightarrow> int" where
  "comparePrerelease v o' =
     comparePrerelease_loop 0 (strings_Split CHR ''.'' v) (strings_Split CHR ''.'' o')"

definition compareSegment :: "64 word \<Rightarrow> 64 word \<Rightarrow> int" where
  "compareSegment v o' = (if v < o' then -1 else if v > o' then 1 else 0)"

definition semver_Compare :: "SemVer \<Rightarrow> SemVer \<Rightarrow> int" where
  "semver_Compare v o' =
     (if compareSegment (major v) (major o') \<noteq> 0 then compareSegment (major v) (major o')
      else if compareSegment (minor v) (minor o') \<noteq> 0 then compareSegment (minor v) (minor o')
      else if compareSegment (patch v) (patch o') \<noteq> 0 then compareSegment (patch v) (patch o')
      else if pre v = [] \<and> pre o' = [] then 0
      else if pre v = [] then 1
      else if pre o' = [] then -1
      else comparePrerelease (pre v) (pre o'))"

definition semver_GreaterThan :: "SemVer \<Rightarrow> SemVer \<Rightarrow> bool" where
  "semver_GreaterThan v o' = (semver_Compare v o' > 0)"

text \<open>
  \<^verbatim>\<open>IncPatch\<close>: a version with a pre-release loses the pre-release and the metadata and
  keeps its patch number; any other version loses the metadata and has its patch number
  incremented, in \<^verbatim>\<open>uint64\<close>.
\<close>

definition semver_IncPatch :: "SemVer \<Rightarrow> SemVer" where
  "semver_IncPatch v =
     (if pre v \<noteq> [] then v\<lparr>metadata := [], pre := []\<rparr>
      else v\<lparr>metadata := [], pre := [], patch := patch v + 1\<rparr>)"

subsection \<open>Sort keys of versions\<close>

text \<open>
  Keys that order as the comparison functions do; the proofs go through them. A part of a
  pre-release is keyed as the empty placeholder, as a number, or as a string; a version by
  its three numbers and then its pre-release, a version without one above all with one.
\<close>

definition partKey :: "string \<Rightarrow> nat \<times> nat \<times> string" where
  "partKey p =
     (if p = [] then (0, 0, [])
      else (case strconv_ParseUint p of Some n \<Rightarrow> (1, unat n, []) | None \<Rightarrow> (2, 0, p)))"

definition verKey :: "SemVer \<Rightarrow> nat \<times> nat \<times> nat \<times> nat \<times> (nat \<times> nat \<times> string) list" where
  "verKey v =
     (unat (major v), unat (minor v), unat (patch v),
      (if pre v = [] then (1, []) else (0, map partKey (strings_Split CHR ''.'' (pre v)))))"

text \<open>
  What \<open>semver_NewVersion\<close> guarantees of a pre-release: no part is empty, and a part of
  digits only has no leading zero.
\<close>

definition wfpart :: "string \<Rightarrow> bool" where
  "wfpart p = (p \<noteq> [] \<and> (list_all isDigit p \<longrightarrow> \<not> (length p > 1 \<and> hd p = CHR ''0'')))"

definition wfpre :: "string \<Rightarrow> bool" where
  "wfpre p = (p = [] \<or> list_all wfpart (strings_Split CHR ''.'' p))"

definition wfver :: "SemVer \<Rightarrow> bool" where
  "wfver v = wfpre (pre v)"

text \<open>The value of a decimal digit, and a digit string without a leading zero.\<close>

definition dval :: "char \<Rightarrow> nat" where
  "dval c = of_char c - 48"

definition canon :: "string \<Rightarrow> bool" where
  "canon p = (p \<noteq> [] \<and> list_all isDigit p \<and> \<not> (length p > 1 \<and> hd p = CHR ''0''))"

text \<open>A manifest with an entry whose version does not parse and one with a pre-release.\<close>

definition manifest_mixed :: "Entry list" where
  "manifest_mixed =
     [\<lparr>Version = ''1.2.3'', Date = 1, Links = []\<rparr>, \<lparr>Version = ''bogus'', Date = 2, Links = []\<rparr>,
      \<lparr>Version = ''1.10.0'', Date = 3, Links = []\<rparr>, \<lparr>Version = ''1.9.9-rc.1'', Date = 4, Links = []\<rparr>]"

subsection \<open>Version resolution\<close>

text \<open>
  The loop of \<^verbatim>\<open>main\<close> over the manifest entries, with \<^verbatim>\<open>highest\<close> so far: an entry whose
  version parses and is greater takes its place; an entry whose version does not parse is
  passed over.
\<close>

fun highest_loop :: "Entry list \<Rightarrow> SemVer \<Rightarrow> SemVer" where
  "highest_loop [] highest = highest"
| "highest_loop (e # entries) highest =
     (case semver_NewVersion (Version e) of
        Some v \<Rightarrow> if semver_GreaterThan v highest then highest_loop entries v
                  else highest_loop entries highest
      | None \<Rightarrow> highest_loop entries highest)"

text \<open>
  The version \<^verbatim>\<open>main\<close> picks: from the flag \<^verbatim>\<open>-version\<close> when it is not empty, else from the
  manifest, starting from \<^verbatim>\<open>semver.MustParse("0.0.0")\<close>.
\<close>

definition version_zero :: SemVer where
  "version_zero = \<lparr>major = 0, minor = 0, patch = 0, pre = [], metadata = []\<rparr>"

definition autoVersion :: "Entry list \<Rightarrow> SemVer" where
  "autoVersion entries = semver_IncPatch (highest_loop entries version_zero)"

definition pickVersion :: "string \<Rightarrow> Entry list \<Rightarrow> error + string" where
  "pickVersion manualVer entries =
     (if manualVer \<noteq> [] then
        (case semver_NewVersion manualVer of
           None \<Rightarrow> Inl InvalidVersion
         | Some v \<Rightarrow> Inr (semver_String v))
      else Inr (semver_String (autoVersion entries)))"

subsection \<open>The manifest file\<close>

text \<open>
  What the program takes from outside the repository and the machine: the two functions
  of \<^verbatim>\<open>encoding/json\<close> it calls, at the type \<^verbatim>\<open>[]Entry\<close> (\<^verbatim>\<open>MarshalIndent\<close> with prefix
  \<^verbatim>\<open>""\<close> and indent of two spaces, which has no error at this type, and \<^verbatim>\<open>Unmarshal\<close>,
  \<open>None\<close> for an error), the hash of \<^verbatim>\<open>crypto/sha256\<close>, \<^verbatim>\<open>strconv.Quote\<close> (the verb
  \<^verbatim>\<open>%q\<close>), the clock, what the build script does to the machine and whether it exits with
  status 0, and whether an \<^verbatim>\<open>ssh\<close> or \<^verbatim>\<open>scp\<close> command exits with status 0.
\<close>

record env =
  e_marshal :: "Entry list \<Rightarrow> string"
  e_unmarshal :: "string \<Rightarrow> Entry list option"
  e_sha256 :: "string \<Rightarrow> string"
  e_quote :: "string \<Rightarrow> string"
  e_now :: "64 word"
  e_build :: "string \<Rightarrow> world \<Rightarrow> world \<times> bool"
  e_remote_ok :: "cmd \<Rightarrow> bool"

text \<open>\<^verbatim>\<open>os.ReadFile\<close> and \<^verbatim>\<open>os.WriteFile\<close>.\<close>

definition os_ReadFile :: "world \<Rightarrow> string \<Rightarrow> error + string" where
  "os_ReadFile w path =
     (case os_Open w path of
        Inl e \<Rightarrow> Inl e
      | Inr (OpenedDir m) \<Rightarrow> Inl IOError
      | Inr (OpenedFile f) \<Rightarrow> Inr (Content f))"

definition os_WriteFile :: "world \<Rightarrow> string \<Rightarrow> string \<Rightarrow> 32 word \<Rightarrow> world \<times> error option" where
  "os_WriteFile w path data perm =
     (case os_OpenFile_create_trunc w path perm of
        (w', Some e) \<Rightarrow> (w', Some e)
      | (w', None) \<Rightarrow>
          (case fs_files w' path of
             None \<Rightarrow> (w', None)
           | Some f \<Rightarrow> (w'\<lparr>fs_files := (fs_files w')(path \<mapsto> \<lparr>Content = data, Mode = Mode f\<rparr>)\<rparr>, None)))"

definition writeEntries :: "env \<Rightarrow> world \<Rightarrow> string \<Rightarrow> Entry list \<Rightarrow> world \<times> error option" where
  "writeEntries env w path ents = os_WriteFile w path (e_marshal env ents) 420"

definition readEntries :: "env \<Rightarrow> world \<Rightarrow> string \<Rightarrow> world \<times> (error + Entry list)" where
  "readEntries env w path =
     (case os_ReadFile w path of
        Inl err \<Rightarrow>
          if err = NotExist then
            (case writeEntries env w path [] of
               (w', Some e) \<Rightarrow> (w', Inl e)
             | (w', None) \<Rightarrow> (w', Inr []))
          else (w, Inl err)
      | Inr data \<Rightarrow>
          (case e_unmarshal env data of
             None \<Rightarrow> (w, Inl ManifestCorrupt)
           | Some ents \<Rightarrow> (w, Inr ents)))"

subsection \<open>External commands\<close>

text \<open>
  \<^verbatim>\<open>exec.Command(name, args...).Run()\<close> for \<^verbatim>\<open>ssh\<close> and \<^verbatim>\<open>scp\<close>: the command joins those run so
  far, and it fails when it does not exit with status 0. These commands act on the remote
  host and leave the local files as they are.
\<close>

definition run_remote :: "env \<Rightarrow> world \<Rightarrow> cmd \<Rightarrow> world \<times> bool" where
  "run_remote env w c = (w\<lparr>issued := issued w @ [c]\<rparr>, e_remote_ok env c)"

definition parseHostPort :: "string \<Rightarrow> string \<times> string" where
  "parseHostPort hp =
     (case strings_Split CHR '':'' hp of
        [host, port] \<Rightarrow> (host, port)
      | _ \<Rightarrow> (hp, []))"

definition ensureRemoteDir :: "env \<Rightarrow> world \<Rightarrow> string \<Rightarrow> string \<Rightarrow> string \<Rightarrow> world \<times> error option" where
  "ensureRemoteDir env w hostPort user remotePath =
     (case parseHostPort hostPort of
        (host, port) \<Rightarrow>
          (case run_remote env w
                  \<lparr>prog = ''ssh'',
                   args = (if port \<noteq> [] then [''-p'', port] else [])
                          @ [user @ ''@'' @ host, ''mkdir -p '' @ remotePath]\<rparr> of
             (w', True) \<Rightarrow> (w', None)
           | (w', False) \<Rightarrow> (w', Some RemoteDirError)))"

fun scp_loop :: "env \<Rightarrow> world \<Rightarrow> string \<Rightarrow> string \<Rightarrow> string \<Rightarrow> string \<Rightarrow> string list \<Rightarrow> world \<times> error option" where
  "scp_loop env w host port user remoteDir [] = (w, None)"
| "scp_loop env w host port user remoteDir (local # locals) =
     (case run_remote env w
             \<lparr>prog = ''scp'',
              args = (if port \<noteq> [] then [''-P'', port] else [])
                     @ [local, user @ ''@'' @ host @ '':'' @ remoteDir]\<rparr> of
        (w', True) \<Rightarrow> scp_loop env w' host port user remoteDir locals
      | (w', False) \<Rightarrow> (w', Some TransferError))"

definition uploadWithScp :: "env \<Rightarrow> world \<Rightarrow> string \<Rightarrow> string \<Rightarrow> string \<Rightarrow> string list \<Rightarrow> world \<times> error option" where
  "uploadWithScp env w hostPort user remoteDir locals =
     (case parseHostPort hostPort of (host, port) \<Rightarrow> scp_loop env w host port user remoteDir locals)"

fun symlink_loop ::
  "env \<Rightarrow> world \<Rightarrow> string \<Rightarrow> string \<Rightarrow> string \<Rightarrow> string \<Rightarrow> string \<Rightarrow> string list \<Rightarrow> world \<times> error option" where
  "symlink_loop env w host port user remoteBase newVersion [] = (w, None)"
| "symlink_loop env w host port user remoteBase newVersion (f # files) =
     (let generic = strings_TrimSuffix f (''-'' @ newVersion @ ''.zip'') @ ''-latest.zip'';
          target = filepath_Join [remoteBase, newVersion, f];
          link = filepath_Join [remoteBase, generic]
      in case run_remote env w
                \<lparr>prog = ''ssh'',
                 args = (if port \<noteq> [] then [''-p'', port] else [])
                        @ [user @ ''@'' @ host, ''ln -sfn '' @ e_quote env target @ '' '' @ e_quote env link]\<rparr> of
           (w', True) \<Rightarrow> symlink_loop env w' host port user remoteBase newVersion files
         | (w', False) \<Rightarrow> (w', Some AliasUpdateError))"

definition updateLatestFileSymlinks ::
  "env \<Rightarrow> world \<Rightarrow> string \<Rightarrow> string \<Rightarrow> string \<Rightarrow> string \<Rightarrow> string list \<Rightarrow> world \<times> error option" where
  "updateLatestFileSymlinks env w hostPort user remoteBase newVersion files =
     (case parseHostPort hostPort of
        (host, port) \<Rightarrow> symlink_loop env w host port user remoteBase newVersion files)"

text \<open>
  \<^verbatim>\<open>RunBuildAll\<close>: the script must exist; \<^verbatim>\<open>bash\<close> runs it with the version as its
  argument, and what it does to the machine is the environment's.
\<close>

definition build_script :: string where
  "build_script = ''../RelayClient/build/build-all.sh''"

definition RunBuildAll :: "env \<Rightarrow> world \<Rightarrow> string \<Rightarrow> world \<times> error option" where
  "RunBuildAll env w version =
     (if fs_files w build_script = None \<and> fs_dirs w build_script = None then (w, Some BuildScriptMissing)
      else
        (case e_build env version w of
           (w', ok) \<Rightarrow>
             (w'\<lparr>issued := issued w @ [\<lparr>prog = ''bash'', args = [build_script, version]\<rparr>]\<rparr>,
              if ok then None else Some BuildFailed)))"

subsection \<open>The pipeline\<close>

text \<open>The flags of the command line, parsed.\<close>

record config =
  cfg_dryRun :: bool
  cfg_srcDir :: string
  cfg_manualVer :: string
  cfg_hostPort :: string
  cfg_user :: string
  cfg_remoteDir :: string
  cfg_jsonName :: string

definition dlDir :: string where
  "dlDir = ''downloads''"

text \<open>\<^verbatim>\<open>strings.TrimRight(s, "/")\<close>.\<close>

definition trimRight_slash :: "string \<Rightarrow> string" where
  "trimRight_slash s = rev (dropWhile (\<lambda>c. c = CHR ''/'') (rev s))"

text \<open>
  \<^verbatim>\<open>os.MkdirAll(path, 0755)\<close>. A directory that is there stays, and a regular file in its
  place is an error. Otherwise the parent, which is the path up to the separator before
  its last element, is made in the same way when it is not empty, and then the directory
  itself, empty and with mode 0755 less the umask.
\<close>

definition mkdir_parent :: "string \<Rightarrow> string option" where
  "mkdir_parent path =
     (let upto = rev (dropWhile (\<lambda>c. c \<noteq> CHR ''/'') (rev (trimRight_slash path)))
      in if 1 < length upto then Some (butlast upto) else None)"

definition os_Mkdir :: "world \<Rightarrow> string \<Rightarrow> world \<times> error option" where
  "os_Mkdir w path =
     (if fs_dirs w path \<noteq> None \<or> fs_files w path \<noteq> None \<or> fs_wdenied w path then (w, Some IOError)
      else (w\<lparr>fs_dirs := (fs_dirs w)(path \<mapsto> []),
              fs_dirmode := (fs_dirmode w)(path := 493 AND NOT (fs_umask w))\<rparr>, None))"

function os_MkdirAll :: "world \<Rightarrow> string \<Rightarrow> world \<times> error option" where
  "os_MkdirAll w path =
     (if fs_dirs w path \<noteq> None then (w, None)
      else if fs_files w path \<noteq> None then (w, Some IOError)
      else
        (case mkdir_parent path of
           None \<Rightarrow> os_Mkdir w path
         | Some parent \<Rightarrow>
             (case os_MkdirAll w parent of
                (w', Some e) \<Rightarrow> (w', Some e)
              | (w', None) \<Rightarrow> os_Mkdir w' path)))"
  by pat_completeness auto
termination
proof (relation "measure (\<lambda>(w, path). length path)", goal_cases)
  case 1
  show ?case by simp
next
  case (2 w path parent)
  define t where "t = trimRight_slash path"
  define upto where "upto = rev (dropWhile (\<lambda>c. c \<noteq> CHR ''/'') (rev t))"
  have "length t \<le> length path"
    unfolding t_def trimRight_slash_def using length_dropWhile_le[of "\<lambda>c. c = CHR ''/''" "rev path"] by simp
  moreover have "length upto \<le> length t"
    unfolding upto_def using length_dropWhile_le[of "\<lambda>c. c \<noteq> CHR ''/''" "rev t"] by simp
  moreover from 2 have "1 < length upto" "parent = butlast upto"
    by (auto simp: mkdir_parent_def Let_def t_def upto_def split: if_splits)
  ultimately show ?case by simp
qed

declare os_MkdirAll.simps [simp del]

text \<open>
  The end of \<^verbatim>\<open>main\<close>, from \<^verbatim>\<open>ensureRemoteDir\<close> on: the remote directory is made, and then,
  unless the run is dry, the archives and the manifest are copied and the links updated.
\<close>

definition publish :: "env \<Rightarrow> config \<Rightarrow> world \<Rightarrow> string \<Rightarrow> string \<Rightarrow> string list \<Rightarrow> world \<times> error option" where
  "publish env cfg w newVersion versionDir files =
     (let remoteVersionDir = trimRight_slash (cfg_remoteDir cfg) @ ''/'' @ dlDir @ ''/'' @ newVersion
      in case ensureRemoteDir env w (cfg_hostPort cfg) (cfg_user cfg) remoteVersionDir of
           (w1, Some e) \<Rightarrow> (w1, Some e)
         | (w1, None) \<Rightarrow>
             (let localZips = map (\<lambda>f. filepath_Join [versionDir, f]) files
              in if \<not> cfg_dryRun cfg then
                   (case uploadWithScp env w1 (cfg_hostPort cfg) (cfg_user cfg) remoteVersionDir localZips of
                      (w2, Some e) \<Rightarrow> (w2, Some e)
                    | (w2, None) \<Rightarrow>
                        (case uploadWithScp env w2 (cfg_hostPort cfg) (cfg_user cfg) (cfg_remoteDir cfg)
                                [cfg_jsonName cfg] of
                           (w3, Some e) \<Rightarrow> (w3, Some e)
                         | (w3, None) \<Rightarrow>
                             updateLatestFileSymlinks env w3 (cfg_hostPort cfg) (cfg_user cfg)
                               (cfg_remoteDir cfg @ ''/'' @ dlDir) newVersion files))
                 else (w1, None)))"

text \<open>
  The middle of \<^verbatim>\<open>main\<close>, once the version is picked: build, stage, checksum, update the
  manifest and write it, then publish.
\<close>

definition release :: "env \<Rightarrow> config \<Rightarrow> world \<Rightarrow> Entry list \<Rightarrow> string \<Rightarrow> world \<times> error option" where
  "release env cfg w entries newVersion =
     (case RunBuildAll env w newVersion of
        (w2, Some e) \<Rightarrow> (w2, Some e)
      | (w2, None) \<Rightarrow>
          (let versionDir = filepath_Join [dlDir, newVersion]
           in case os_MkdirAll w2 versionDir of
                (w3, Some e) \<Rightarrow> (w3, Some e)
              | (w3, None) \<Rightarrow>
                  (case collectAndRenameZips w3 (cfg_srcDir cfg) versionDir newVersion of
                     (w4, Inl e) \<Rightarrow> (w4, Some e)
                   | (w4, Inr files) \<Rightarrow>
                       (case checksum_loop (e_sha256 env) w4 versionDir files [] of
                          Inl e \<Rightarrow> (w4, Some e)
                        | Inr links \<Rightarrow>
                            (case writeEntries env w4 (cfg_jsonName cfg)
                                    (upsertEntry entries
                                       \<lparr>Version = newVersion, Date = e_now env, Links = links\<rparr>) of
                               (w5, Some e) \<Rightarrow> (w5, Some e)
                             | (w5, None) \<Rightarrow> publish env cfg w5 newVersion versionDir files)))))"

text \<open>
  \<^verbatim>\<open>main\<close>: the machine after the run, and the error the run stopped at (exit status 1), or
  none (exit status 0).
\<close>

definition main :: "env \<Rightarrow> config \<Rightarrow> world \<Rightarrow> world \<times> error option" where
  "main env cfg w =
     (case os_MkdirAll w dlDir of
        (w0, Some e) \<Rightarrow> (w0, Some e)
      | (w0, None) \<Rightarrow>
          (case readEntries env w0 (cfg_jsonName cfg) of
             (w1, Inl e) \<Rightarrow> (w1, Some e)
           | (w1, Inr entries) \<Rightarrow>
               (case pickVersion (cfg_manualVer cfg) entries of
                  Inl e \<Rightarrow> (w1, Some e)
                | Inr newVersion \<Rightarrow> release env cfg w1 entries newVersion)))"

text \<open>A command that goes to the remote host.\<close>

definition is_remote :: "cmd \<Rightarrow> bool" where
  "is_remote c = (prog c = ''ssh'' \<or> prog c = ''scp'')"

subsection \<open>Example runs\<close>

text \<open>
  A machine ready for a release: the build script, one archive in \<^verbatim>\<open>src\<close>, no manifest yet.
  The flags of a dry run with the defaults of the command line but for the source directory.
\<close>

definition world_release :: world where
  "world_release =
     \<lparr>fs_files = [''src/client.zip'' \<mapsto> \<lparr>Content = ''PK'', Mode = 420\<rparr>,
                  ''../RelayClient/build/build-all.sh'' \<mapsto> \<lparr>Content = ''#!/bin/bash'', Mode = 493\<rparr>],
      fs_dirs = [''src'' \<mapsto> [\<lparr>Name = ''client.zip'', IsDir = False\<rparr>]],
      fs_dirmode = (\<lambda>p. 493), fs_umask = 18, fs_superuser = False,
      fs_rdenied = (\<lambda>p. False), fs_wdenied = (\<lambda>p. False), issued = []\<rparr>"

definition cfg_dry :: config where
  "cfg_dry =
     \<lparr>cfg_dryRun = True, cfg_srcDir = ''src'', cfg_manualVer = [], cfg_hostPort = ''host.ext'',
      cfg_user = ''user'', cfg_remoteDir = ''/home/user/www/public_html'', cfg_jsonName = ''relayClient.json''\<rparr>"

text \<open>The same flags with \<^verbatim>\<open>-version 1.2\<close>.\<close>

definition cfg_manual :: config where
  "cfg_manual =
     \<lparr>cfg_dryRun = True, cfg_srcDir = ''src'', cfg_manualVer = ''1.2'', cfg_hostPort = ''host.ext'',
      cfg_user = ''user'', cfg_remoteDir = ''/home/user/www/public_html'', cfg_jsonName = ''relayClient.json''\<rparr>"



section \<open>Properties of the manifest update\<close>

lemma upsertEntry_absent:
  "\<forall>x \<in> set entries. Version x \<noteq> Version newEntry \<Longrightarrow>
   upsertEntry entries newEntry = entries @ [newEntry]"
  by (induction entries) auto

lemma upsertEntry_first:
  "\<forall>x \<in> set front. Version x \<noteq> Version newEntry \<Longrightarrow> Version e = Version newEntry \<Longrightarrow>
   upsertEntry (front @ e # back) newEntry = front @ newEntry # back"
  by (induction front) auto

lemma upsertEntry_idem:
  "upsertEntry (upsertEntry entries newEntry) newEntry = upsertEntry entries newEntry"
  by (induction entries) auto

lemma upsertEntry_versions:
  "set (map Version (upsertEntry entries newEntry)) = insert (Version newEntry) (set (map Version entries))"
  by (induction entries) auto

lemma upsertEntry_distinct:
  "distinct (map Version entries) \<Longrightarrow> distinct (map Version (upsertEntry entries newEntry))"
proof (induction entries)
  case Nil
  then show ?case by simp
next
  case (Cons e entries)
  show ?case
  proof (cases "Version e = Version newEntry")
    case True
    with Cons.prems show ?thesis by simp
  next
    case False
    have "Version e \<notin> set (map Version (upsertEntry entries newEntry))"
      using Cons.prems False unfolding upsertEntry_versions by auto
    with Cons False show ?thesis by simp
  qed
qed

text \<open>
  C4. For every sequence and every new entry: when some entry has the new entry's
  version, the result is the sequence with the first such entry replaced at its own
  index and every other entry as it was; when none has it, the result is the sequence
  with the new entry appended; and applying the same entry a second time changes nothing.
\<close>

theorem upsertEntry_replace_or_append_idempotent:
  "(\<forall>i < length entries.
      Version (entries ! i) = Version newEntry \<and> (\<forall>j < i. Version (entries ! j) \<noteq> Version newEntry)
      \<longrightarrow> upsertEntry entries newEntry = entries[i := newEntry])
   \<and> ((\<forall>x \<in> set entries. Version x \<noteq> Version newEntry)
      \<longrightarrow> upsertEntry entries newEntry = entries @ [newEntry])
   \<and> upsertEntry (upsertEntry entries newEntry) newEntry = upsertEntry entries newEntry"
proof (intro conjI allI impI)
  fix i
  assume i: "i < length entries"
    and hit: "Version (entries ! i) = Version newEntry \<and> (\<forall>j < i. Version (entries ! j) \<noteq> Version newEntry)"
  have split: "entries = take i entries @ entries ! i # drop (Suc i) entries"
    using i by (simp add: id_take_nth_drop)
  have before: "\<forall>x \<in> set (take i entries). Version x \<noteq> Version newEntry"
  proof
    fix x assume "x \<in> set (take i entries)"
    then obtain j where "j < length (take i entries)" "x = take i entries ! j"
      by (auto simp: in_set_conv_nth)
    then have "j < i" "x = entries ! j" by simp_all
    with hit show "Version x \<noteq> Version newEntry" by simp
  qed
  have "upsertEntry (take i entries @ entries ! i # drop (Suc i) entries) newEntry
        = take i entries @ newEntry # drop (Suc i) entries"
    using before hit by (simp add: upsertEntry_first)
  moreover have "entries[i := newEntry] = take i entries @ newEntry # drop (Suc i) entries"
    using i by (simp add: upd_conv_take_nth_drop)
  ultimately show "upsertEntry entries newEntry = entries[i := newEntry]"
    using split by simp
next
  assume "\<forall>x \<in> set entries. Version x \<noteq> Version newEntry"
  then show "upsertEntry entries newEntry = entries @ [newEntry]"
    by (rule upsertEntry_absent)
next
  show "upsertEntry (upsertEntry entries newEntry) newEntry = upsertEntry entries newEntry"
    by (rule upsertEntry_idem)
qed

theorem upsertEntry_replace_or_append_idempotent_witness:
  "upsertEntry
     [\<lparr>Version = ''0.0.1'', Date = 1, Links = []\<rparr>, \<lparr>Version = ''0.0.2'', Date = 2, Links = []\<rparr>,
      \<lparr>Version = ''0.0.2'', Date = 3, Links = []\<rparr>]
     \<lparr>Version = ''0.0.2'', Date = 9, Links = []\<rparr>
   = [\<lparr>Version = ''0.0.1'', Date = 1, Links = []\<rparr>, \<lparr>Version = ''0.0.2'', Date = 9, Links = []\<rparr>,
      \<lparr>Version = ''0.0.2'', Date = 3, Links = []\<rparr>]
   \<and> upsertEntry [\<lparr>Version = ''0.0.1'', Date = 1, Links = []\<rparr>] \<lparr>Version = ''0.0.2'', Date = 9, Links = []\<rparr>
   = [\<lparr>Version = ''0.0.1'', Date = 1, Links = []\<rparr>, \<lparr>Version = ''0.0.2'', Date = 9, Links = []\<rparr>]"
  using upsertEntry_replace_or_append_idempotent
          [of "[\<lparr>Version = ''0.0.1'', Date = 1, Links = []\<rparr>, \<lparr>Version = ''0.0.2'', Date = 2, Links = []\<rparr>,
                \<lparr>Version = ''0.0.2'', Date = 3, Links = []\<rparr>]"
              "\<lparr>Version = ''0.0.2'', Date = 9, Links = []\<rparr>"]
        upsertEntry_replace_or_append_idempotent
          [of "[\<lparr>Version = ''0.0.1'', Date = 1, Links = []\<rparr>]" "\<lparr>Version = ''0.0.2'', Date = 9, Links = []\<rparr>"]
  by simp

text \<open>
  C10. When no two entries of the input share a version string, no two entries of the
  result do. When the input holds several entries with the new entry's version, the
  first of them is replaced and everything after it, later duplicates included, is
  returned as it was.
\<close>

theorem upsertEntry_keeps_versions_unique:
  "(distinct (map Version entries) \<longrightarrow> distinct (map Version (upsertEntry entries newEntry)))
   \<and> ((\<forall>x \<in> set front. Version x \<noteq> Version newEntry) \<and> Version e = Version newEntry
      \<longrightarrow> upsertEntry (front @ e # back) newEntry = front @ newEntry # back)"
  using upsertEntry_distinct upsertEntry_first by blast

theorem upsertEntry_keeps_versions_unique_witness:
  "distinct (map Version (upsertEntry
      [\<lparr>Version = ''0.0.1'', Date = 1, Links = []\<rparr>, \<lparr>Version = ''0.0.2'', Date = 2, Links = []\<rparr>]
      \<lparr>Version = ''0.0.2'', Date = 9, Links = []\<rparr>))
   \<and> upsertEntry
      ([\<lparr>Version = ''0.0.1'', Date = 1, Links = []\<rparr>] @ \<lparr>Version = ''0.0.2'', Date = 2, Links = []\<rparr>
         # [\<lparr>Version = ''0.0.2'', Date = 3, Links = []\<rparr>])
      \<lparr>Version = ''0.0.2'', Date = 9, Links = []\<rparr>
     = [\<lparr>Version = ''0.0.1'', Date = 1, Links = []\<rparr>] @ \<lparr>Version = ''0.0.2'', Date = 9, Links = []\<rparr>
         # [\<lparr>Version = ''0.0.2'', Date = 3, Links = []\<rparr>]"
  using upsertEntry_keeps_versions_unique
          [of "[\<lparr>Version = ''0.0.1'', Date = 1, Links = []\<rparr>, \<lparr>Version = ''0.0.2'', Date = 2, Links = []\<rparr>]"
              "\<lparr>Version = ''0.0.2'', Date = 9, Links = []\<rparr>" "[]" "\<lparr>Version = ''0.0.2'', Date = 9, Links = []\<rparr>" "[]"]
        upsertEntry_keeps_versions_unique
          [of "[]" "\<lparr>Version = ''0.0.2'', Date = 9, Links = []\<rparr>"
              "[\<lparr>Version = ''0.0.1'', Date = 1, Links = []\<rparr>]" "\<lparr>Version = ''0.0.2'', Date = 2, Links = []\<rparr>"
              "[\<lparr>Version = ''0.0.2'', Date = 3, Links = []\<rparr>]"]
  by simp

section \<open>Lemmas on copying and the staging loop\<close>

lemma os_Open_file:
  "os_Open w path = Inr (OpenedFile f) \<longleftrightarrow>
     fs_dirs w path = None \<and> fs_files w path = Some f \<and> may_read w path (Mode f)"
  by (auto simp: os_Open_def split: option.splits)

lemma os_Open_dir:
  "os_Open w path = Inr (OpenedDir m) \<longleftrightarrow>
     fs_dirs w path \<noteq> None \<and> \<not> fs_rdenied w path \<and> m = fs_dirmode w path"
  by (auto simp: os_Open_def split: option.splits)

lemma os_OpenFile_create_trunc_ok:
  assumes "os_OpenFile_create_trunc w path perm = (w', None)"
  shows "fs_dirs w path = None \<and> \<not> fs_wdenied w path
     \<and> w' = w\<lparr>fs_files := (fs_files w)(path \<mapsto> \<lparr>Content = [], Mode = stagedMode w path perm\<rparr>)\<rparr>"
  using assms
  by (auto simp: os_OpenFile_create_trunc_def stagedMode_def may_write_def split: option.splits if_splits)

lemma copyFile_ok:
  assumes "copyFile w src dst = (w', None)"
  shows "\<exists>f. fs_files w src = Some f \<and> fs_dirs w src = None \<and> \<not> fs_rdenied w src \<and> \<not> fs_wdenied w dst \<and>
     w' = w\<lparr>fs_files := (fs_files w)(dst \<mapsto>
            \<lparr>Content = (if src = dst then [] else Content f), Mode = stagedMode w dst (Mode f)\<rparr>)\<rparr>"
proof -
  from assms obtain sf w1 where o: "os_Open w src = Inr sf"
    and c: "os_OpenFile_create_trunc w dst (opened_Mode sf) = (w1, None)"
    and i: "io_Copy w1 dst src = (w', None)"
    by (auto simp: copyFile_def split: sum.splits prod.splits option.splits)
  note w1 = os_OpenFile_create_trunc_ok[OF c]
  show ?thesis
  proof (cases sf)
    case (OpenedDir m)
    with o have "fs_dirs w src \<noteq> None" by (simp add: os_Open_dir)
    then have "fs_dirs w1 src \<noteq> None" using w1 by simp
    with i show ?thesis by (simp add: io_Copy_def)
  next
    case (OpenedFile f)
    with o have f: "fs_dirs w src = None" "fs_files w src = Some f" "may_read w src (Mode f)"
      by (simp_all add: os_Open_file)
    from i w1 f show ?thesis
      by (auto simp: io_Copy_def OpenedFile opened_Mode_def may_read_def split: if_splits option.splits)
  qed
qed

lemma copyFile_frame:
  assumes "copyFile w src dst = (w', None)"
  shows "w' = w\<lparr>fs_files := fs_files w'\<rparr>" and "p \<noteq> dst \<Longrightarrow> fs_files w' p = fs_files w p"
  using copyFile_ok[OF assms] by auto

lemma stage_loop_none:
  "\<forall>de \<in> set entries. \<not> selected de \<Longrightarrow> stage_loop w srcDir versionDir ver entries out = (w, Inr out)"
  by (induction entries) (auto simp: selected_def)

lemma stage_loop_out:
  "stage_loop w srcDir versionDir ver entries out = (w', Inr out') \<Longrightarrow>
   out' = out @ map (\<lambda>de. stagedName ver (Name de)) (filter selected entries)"
proof (induction entries arbitrary: w out)
  case Nil
  then show ?case by simp
next
  case (Cons de entries)
  show ?case
  proof (cases "selected de")
    case False
    then have "stage_loop w srcDir versionDir ver (de # entries) out = stage_loop w srcDir versionDir ver entries out"
      by (auto simp: selected_def)
    with Cons False show ?thesis by simp
  next
    case True
    obtain w1 r where c: "copyFile w (filepath_Join [srcDir, Name de]) (filepath_Join [versionDir, stagedName ver (Name de)]) = (w1, r)"
      by fastforce
    show ?thesis
    proof (cases r)
      case None
      with True c Cons.prems have "stage_loop w1 srcDir versionDir ver entries (out @ [stagedName ver (Name de)]) = (w', Inr out')"
        by (simp add: selected_def stagedName_def Let_def)
      from Cons.IH[OF this] True show ?thesis by simp
    next
      case (Some e)
      with True c Cons.prems show ?thesis
        by (simp add: selected_def stagedName_def Let_def)
    qed
  qed
qed


lemma stage_loop_Cons_selected:
  "selected de \<Longrightarrow>
   stage_loop w srcDir versionDir ver (de # entries) out =
     (case copyFile w (srcPath srcDir de) (dstPath versionDir ver de) of
        (w1, Some e) \<Rightarrow> (w1, Inl e)
      | (w1, None) \<Rightarrow> stage_loop w1 srcDir versionDir ver entries (out @ [stagedName ver (Name de)]))"
  by (auto simp: selected_def stagedName_def srcPath_def dstPath_def Let_def split: prod.splits option.splits)

lemma stage_loop_Cons_skipped:
  "\<not> selected de \<Longrightarrow>
   stage_loop w srcDir versionDir ver (de # entries) out = stage_loop w srcDir versionDir ver entries out"
  by (auto simp: selected_def)

lemma stage_loop_frame:
  "stage_loop w srcDir versionDir ver entries out = (w', Inr out') \<Longrightarrow>
   w' = w\<lparr>fs_files := fs_files w'\<rparr> \<and>
   (\<forall>p. p \<notin> dstPath versionDir ver ` set (filter selected entries) \<longrightarrow> fs_files w' p = fs_files w p)"
proof (induction entries arbitrary: w out)
  case Nil
  then show ?case by simp
next
  case (Cons de entries)
  show ?case
  proof (cases "selected de")
    case False
    from Cons.prems have "stage_loop w srcDir versionDir ver entries out = (w', Inr out')"
      unfolding stage_loop_Cons_skipped[OF False] .
    from Cons.IH[OF this] False show ?thesis by simp
  next
    case True
    obtain w1 r where c: "copyFile w (srcPath srcDir de) (dstPath versionDir ver de) = (w1, r)"
      by fastforce
    from Cons.prems c obtain rn: "r = None"
      and rest: "stage_loop w1 srcDir versionDir ver entries (out @ [stagedName ver (Name de)]) = (w', Inr out')"
      unfolding stage_loop_Cons_selected[OF True] by (cases r) simp_all
    note w1 = copyFile_frame[OF c[unfolded rn]]
    from Cons.IH[OF rest] have ih1: "w' = w1\<lparr>fs_files := fs_files w'\<rparr>"
      and ih2: "\<forall>p. p \<notin> dstPath versionDir ver ` set (filter selected entries) \<longrightarrow> fs_files w' p = fs_files w1 p"
      by blast+
    have "w' = w\<lparr>fs_files := fs_files w'\<rparr>"
      using ih1 w1(1) by (metis world.surjective world.update_convs(1))
    moreover have "\<forall>p. p \<notin> dstPath versionDir ver ` set (filter selected (de # entries)) \<longrightarrow> fs_files w' p = fs_files w p"
      using ih2 w1(2) True by auto
    ultimately show ?thesis by blast
  qed
qed

lemma stagedMode_files_cong:
  "fs_files w1 p = fs_files w p \<Longrightarrow> fs_umask w1 = fs_umask w \<Longrightarrow> stagedMode w1 p m = stagedMode w p m"
  by (simp add: stagedMode_def split: option.splits)

lemma stage_loop_staged:
  assumes "stage_loop w srcDir versionDir ver entries out = (w', Inr out')"
    and "distinct (map (dstPath versionDir ver) (filter selected entries))"
    and "dstPath versionDir ver ` set (filter selected entries) \<inter> srcPath srcDir ` set (filter selected entries) = {}"
    and "de \<in> set (filter selected entries)"
  shows "\<exists>f. fs_files w (srcPath srcDir de) = Some f \<and>
          fs_files w' (dstPath versionDir ver de) =
            Some \<lparr>Content = Content f, Mode = stagedMode w (dstPath versionDir ver de) (Mode f)\<rparr>"
  using assms
proof (induction entries arbitrary: w out)
  case Nil
  then show ?case by simp
next
  case (Cons d entries)
  show ?case
  proof (cases "selected d")
    case False
    from Cons.prems(1) have "stage_loop w srcDir versionDir ver entries out = (w', Inr out')"
      unfolding stage_loop_Cons_skipped[OF False] .
    moreover from False Cons.prems(2-4) have
      "distinct (map (dstPath versionDir ver) (filter selected entries))"
      "dstPath versionDir ver ` set (filter selected entries) \<inter> srcPath srcDir ` set (filter selected entries) = {}"
      "de \<in> set (filter selected entries)"
      by simp_all
    ultimately show ?thesis by (rule Cons.IH)
  next
    case True
    obtain w1 r where c: "copyFile w (srcPath srcDir d) (dstPath versionDir ver d) = (w1, r)"
      by fastforce
    from Cons.prems(1) c obtain rn: "r = None"
      and rest: "stage_loop w1 srcDir versionDir ver entries (out @ [stagedName ver (Name d)]) = (w', Inr out')"
      unfolding stage_loop_Cons_selected[OF True] by (cases r) simp_all
    have "dstPath versionDir ver d \<in> dstPath versionDir ver ` set (filter selected (d # entries))"
      "srcPath srcDir d \<in> srcPath srcDir ` set (filter selected (d # entries))"
      using True by simp_all
    then have neq: "srcPath srcDir d \<noteq> dstPath versionDir ver d"
      using Cons.prems(3) by (metis IntI empty_iff)
    from copyFile_ok[OF c[unfolded rn]] neq obtain f where
      f: "fs_files w (srcPath srcDir d) = Some f"
      and w1: "w1 = w\<lparr>fs_files := (fs_files w)(dstPath versionDir ver d \<mapsto>
             \<lparr>Content = Content f, Mode = stagedMode w (dstPath versionDir ver d) (Mode f)\<rparr>)\<rparr>"
      by auto
    have dist: "distinct (map (dstPath versionDir ver) (filter selected entries))"
      and dnotin: "dstPath versionDir ver d \<notin> dstPath versionDir ver ` set (filter selected entries)"
      using Cons.prems(2) True by auto
    have disj: "dstPath versionDir ver ` set (filter selected entries) \<inter> srcPath srcDir ` set (filter selected entries) = {}"
      using Cons.prems(3) True by auto
    show ?thesis
    proof (cases "de \<in> set (filter selected entries)")
      case True
      from Cons.IH[OF rest dist disj True] obtain g where
        g: "fs_files w1 (srcPath srcDir de) = Some g"
        and g': "fs_files w' (dstPath versionDir ver de) =
            Some \<lparr>Content = Content g, Mode = stagedMode w1 (dstPath versionDir ver de) (Mode g)\<rparr>"
        by blast
      have "dstPath versionDir ver d \<in> dstPath versionDir ver ` set (filter selected (d # entries))"
        using \<open>selected d\<close> by simp
      moreover have "srcPath srcDir de \<in> srcPath srcDir ` set (filter selected (d # entries))"
        using True by simp
      ultimately have n1: "srcPath srcDir de \<noteq> dstPath versionDir ver d"
        using Cons.prems(3) by (metis IntI empty_iff)
      have "dstPath versionDir ver de \<in> dstPath versionDir ver ` set (filter selected entries)"
        using True by (rule imageI)
      with dnotin have n2: "dstPath versionDir ver de \<noteq> dstPath versionDir ver d"
        by metis
      have "fs_files w (srcPath srcDir de) = Some g"
        using g n1 w1 by simp
      moreover have "stagedMode w1 (dstPath versionDir ver de) (Mode g) = stagedMode w (dstPath versionDir ver de) (Mode g)"
        using n2 w1 by (intro stagedMode_files_cong) simp_all
      ultimately show ?thesis using g' by auto
    next
      case False
      with Cons.prems(4) True have de: "de = d" by auto
      from stage_loop_frame[OF rest] dnotin
      have "fs_files w' (dstPath versionDir ver d) = fs_files w1 (dstPath versionDir ver d)"
        by blast
      with w1 f de show ?thesis by simp
    qed
  qed
qed


lemma mask_clear: "(x :: 32 word) AND m = 0 \<Longrightarrow> x AND NOT m = x"
proof (rule bit_eqI)
  fix n
  assume "x AND m = 0"
  then have "\<not> (bit x n \<and> bit m n)"
    by (metis bit_and_iff bit_0_eq bot_apply bot_bool_def)
  then show "bit (x AND NOT m) n = bit x n"
    by (auto simp: bit_and_iff bit_not_iff dest: bit_imp_possible_bit)
qed

lemma ext_scan_shape:
  "ext_scan r suf = [] \<or> (\<exists>r1 r2. r = r1 @ CHR ''.'' # r2 \<and> ext_scan r suf = CHR ''.'' # rev r1 @ suf)"
proof (induction r arbitrary: suf)
  case Nil
  then show ?case by simp
next
  case (Cons c r)
  show ?case
  proof (cases "c = CHR ''/'' \<or> c = CHR ''.''")
    case True
    then show ?thesis by auto
  next
    case False
    from Cons.IH[of "c # suf"] show ?thesis
    proof
      assume "ext_scan r (c # suf) = []"
      with False show ?thesis by simp
    next
      assume "\<exists>r1 r2. r = r1 @ CHR ''.'' # r2 \<and> ext_scan r (c # suf) = CHR ''.'' # rev r1 @ c # suf"
      then obtain r1 r2 where "r = r1 @ CHR ''.'' # r2" "ext_scan r (c # suf) = CHR ''.'' # rev r1 @ c # suf"
        by blast
      with False have "c # r = (c # r1) @ CHR ''.'' # r2 \<and> ext_scan (c # r) suf = CHR ''.'' # rev (c # r1) @ suf"
        by simp
      then show ?thesis by blast
    qed
  qed
qed

lemma filepath_Ext_suffix:
  "\<exists>base. n = base @ filepath_Ext n \<and> strings_TrimSuffix n (filepath_Ext n) = base"
proof -
  from ext_scan_shape[of "rev n" "[]"] show ?thesis
  proof
    assume "ext_scan (rev n) [] = []"
    then show ?thesis by (simp add: filepath_Ext_def strings_TrimSuffix_def strings_HasSuffix_def)
  next
    assume "\<exists>r1 r2. rev n = r1 @ CHR ''.'' # r2 \<and> ext_scan (rev n) [] = CHR ''.'' # rev r1 @ []"
    then obtain r1 r2 where r: "rev n = r1 @ CHR ''.'' # r2" and e: "filepath_Ext n = CHR ''.'' # rev r1"
      by (auto simp: filepath_Ext_def)
    from r have "n = rev r2 @ CHR ''.'' # rev r1"
      by (metis rev_append rev.simps(2) rev_rev_ident append.assoc append_Cons append_Nil)
    with e show ?thesis
      by (simp add: strings_TrimSuffix_def strings_HasSuffix_def)
  qed
qed



section \<open>Properties of staging\<close>

text \<open>
  C8. When the source directory can be listed and none of its entries is a file with
  the archive extension, staging fails with \<open>NoArtifactsFound\<close> and leaves the machine as
  it was; and staging never returns an empty list of staged files, whatever the machine.
\<close>

theorem collectAndRenameZips_no_artifacts:
  "(fs_dirs w srcDir = Some entries \<and> (\<forall>de \<in> set entries. \<not> selected de)
      \<longrightarrow> collectAndRenameZips w srcDir versionDir ver = (w, Inl NoArtifactsFound))
   \<and> snd (collectAndRenameZips w srcDir versionDir ver) \<noteq> Inr []"
proof (intro conjI impI)
  assume "fs_dirs w srcDir = Some entries \<and> (\<forall>de \<in> set entries. \<not> selected de)"
  then show "collectAndRenameZips w srcDir versionDir ver = (w, Inl NoArtifactsFound)"
    by (simp add: collectAndRenameZips_def os_ReadDir_def stage_loop_none)
next
  show "snd (collectAndRenameZips w srcDir versionDir ver) \<noteq> Inr []"
    by (auto simp: collectAndRenameZips_def split: sum.splits prod.splits)
qed

theorem collectAndRenameZips_no_artifacts_witness:
  "collectAndRenameZips world_empty ''src'' ''downloads/0.0.1'' ''0.0.1'' = (world_empty, Inl NoArtifactsFound)"
proof -
  have "fs_dirs world_empty ''src'' =
          Some [\<lparr>Name = ''old.zip'', IsDir = True\<rparr>, \<lparr>Name = ''readme.md'', IsDir = False\<rparr>]"
    by (simp add: world_empty_def)
  moreover have "\<forall>de \<in> set [\<lparr>Name = ''old.zip'', IsDir = True\<rparr>, \<lparr>Name = ''readme.md'', IsDir = False\<rparr>]. \<not> selected de"
    by (simp add: selected_def strings_EqualFold_def filepath_Ext_def)
  ultimately show ?thesis
    using collectAndRenameZips_no_artifacts
            [of world_empty "''src''" "[\<lparr>Name = ''old.zip'', IsDir = True\<rparr>, \<lparr>Name = ''readme.md'', IsDir = False\<rparr>]"
                "''downloads/0.0.1''" "''0.0.1''"]
    by blast
qed

lemma selected_name:
  assumes "selected de"
  shows "\<exists>base ext. Name de = base @ ext \<and> ext = filepath_Ext (Name de) \<and> map ascii_lower ext = ''.zip''
           \<and> stagedName ver (Name de) = base @ ''-'' @ ver @ ''.zip''"
proof -
  obtain base where "Name de = base @ filepath_Ext (Name de)"
    "strings_TrimSuffix (Name de) (filepath_Ext (Name de)) = base"
    using filepath_Ext_suffix by blast
  moreover have "map ascii_lower (filepath_Ext (Name de)) = ''.zip''"
    using assms by (simp add: selected_def strings_EqualFold_def ascii_lower_def)
  ultimately show ?thesis
    by (simp add: stagedName_def)
qed

lemma collectAndRenameZips_ok:
  assumes "collectAndRenameZips w srcDir versionDir ver = (w', Inr out)"
  shows "\<exists>entries. fs_dirs w srcDir = Some entries \<and> stage_loop w srcDir versionDir ver entries [] = (w', Inr out)"
  using assms
  by (auto simp: collectAndRenameZips_def os_ReadDir_def split: option.splits sum.splits prod.splits if_splits)

text \<open>
  C7, as the code has it. When staging succeeds on a source directory with listing
  \<open>entries\<close>, the staged names are those of exactly the entries that are not directories
  and whose extension equals \<^verbatim>\<open>.zip\<close> up to case, in listing order; an entry named
  \<open>base @ ext\<close> is staged as \<open>base\<close>, a hyphen, the version and \<^verbatim>\<open>.zip\<close> in lower case,
  whatever the case of \<open>ext\<close>. When no two selected entries share a staged path and no
  staged path is the source path of a selected entry, every staged file holds the bytes of
  its source, and it has the mode of its source when it did not exist before and the
  umask masks none of the bits of that mode.
\<close>

theorem collectAndRenameZips_selects_renames:
  assumes "collectAndRenameZips w srcDir versionDir ver = (w', Inr out)"
    and "fs_dirs w srcDir = Some entries"
  shows "out = map (\<lambda>de. stagedName ver (Name de)) (filter selected entries)
     \<and> (\<forall>de \<in> set (filter selected entries).
           \<exists>base ext. Name de = base @ ext \<and> ext = filepath_Ext (Name de) \<and> map ascii_lower ext = ''.zip''
             \<and> stagedName ver (Name de) = base @ ''-'' @ ver @ ''.zip'')
     \<and> (distinct (map (dstPath versionDir ver) (filter selected entries))
          \<and> dstPath versionDir ver ` set (filter selected entries) \<inter> srcPath srcDir ` set (filter selected entries) = {}
         \<longrightarrow> (\<forall>de \<in> set (filter selected entries).
                \<exists>f g. fs_files w (srcPath srcDir de) = Some f
                  \<and> fs_files w' (dstPath versionDir ver de) = Some g
                  \<and> Content g = Content f
                  \<and> (fs_files w (dstPath versionDir ver de) = None \<and> Mode f AND fs_umask w = 0 \<longrightarrow> Mode g = Mode f)))"
proof -
  from collectAndRenameZips_ok[OF assms(1)] assms(2)
  have l: "stage_loop w srcDir versionDir ver entries [] = (w', Inr out)"
    by auto
  have o: "out = map (\<lambda>de. stagedName ver (Name de)) (filter selected entries)"
    using stage_loop_out[OF l] by simp
  have n: "\<forall>de \<in> set (filter selected entries).
           \<exists>base ext. Name de = base @ ext \<and> ext = filepath_Ext (Name de) \<and> map ascii_lower ext = ''.zip''
             \<and> stagedName ver (Name de) = base @ ''-'' @ ver @ ''.zip''"
    using selected_name by simp
  have m: "\<forall>de \<in> set (filter selected entries).
                \<exists>f g. fs_files w (srcPath srcDir de) = Some f
                  \<and> fs_files w' (dstPath versionDir ver de) = Some g
                  \<and> Content g = Content f
                  \<and> (fs_files w (dstPath versionDir ver de) = None \<and> Mode f AND fs_umask w = 0 \<longrightarrow> Mode g = Mode f)"
    if h1: "distinct (map (dstPath versionDir ver) (filter selected entries))"
      and h2: "dstPath versionDir ver ` set (filter selected entries) \<inter> srcPath srcDir ` set (filter selected entries) = {}"
  proof
    fix de assume de: "de \<in> set (filter selected entries)"
    from stage_loop_staged[OF l h1 h2 de] obtain f where
      f: "fs_files w (srcPath srcDir de) = Some f"
      and g: "fs_files w' (dstPath versionDir ver de) =
            Some \<lparr>Content = Content f, Mode = stagedMode w (dstPath versionDir ver de) (Mode f)\<rparr>"
      by blast
    have "fs_files w (dstPath versionDir ver de) = None \<and> Mode f AND fs_umask w = 0 \<longrightarrow>
          stagedMode w (dstPath versionDir ver de) (Mode f) = Mode f"
      by (simp add: stagedMode_def mask_clear)
    with f g show "\<exists>f g. fs_files w (srcPath srcDir de) = Some f
                  \<and> fs_files w' (dstPath versionDir ver de) = Some g
                  \<and> Content g = Content f
                  \<and> (fs_files w (dstPath versionDir ver de) = None \<and> Mode f AND fs_umask w = 0 \<longrightarrow> Mode g = Mode f)"
      by simp
  qed
  from o n m show ?thesis by blast
qed

lemma world_client_staged:
  "collectAndRenameZips world_client ''src'' ''downloads/0.0.1'' ''0.0.1''
     = (fst (collectAndRenameZips world_client ''src'' ''downloads/0.0.1'' ''0.0.1''), Inr [''client-0.0.1.zip''])"
proof -
  have "snd (collectAndRenameZips world_client ''src'' ''downloads/0.0.1'' ''0.0.1'') = Inr [''client-0.0.1.zip'']"
    by code_simp
  then show ?thesis by (metis prod.collapse)
qed

theorem collectAndRenameZips_selects_renames_witness:
  "\<exists>g. fs_files (fst (collectAndRenameZips world_client ''src'' ''downloads/0.0.1'' ''0.0.1''))
           ''downloads/0.0.1/client-0.0.1.zip'' = Some g
        \<and> Content g = ''PK'' \<and> Mode g = 420"
proof -
  let ?w' = "fst (collectAndRenameZips world_client ''src'' ''downloads/0.0.1'' ''0.0.1'')"
  let ?entries = "[\<lparr>Name = ''client.zip'', IsDir = False\<rparr>, \<lparr>Name = ''old.zip'', IsDir = True\<rparr>,
                   \<lparr>Name = ''readme.md'', IsDir = False\<rparr>]"
  have d: "fs_dirs world_client ''src'' = Some ?entries"
    by (simp add: world_client_def)
  have sel: "filter selected ?entries = [\<lparr>Name = ''client.zip'', IsDir = False\<rparr>]"
    by code_simp
  have paths: "dstPath ''downloads/0.0.1'' ''0.0.1'' \<lparr>Name = ''client.zip'', IsDir = False\<rparr> = ''downloads/0.0.1/client-0.0.1.zip''"
    "srcPath ''src'' \<lparr>Name = ''client.zip'', IsDir = False\<rparr> = ''src/client.zip''"
    by code_simp+
  have pre: "fs_files world_client ''downloads/0.0.1/client-0.0.1.zip'' = None"
    "fs_files world_client ''src/client.zip'' = Some \<lparr>Content = ''PK'', Mode = 420\<rparr>"
    "fs_umask world_client = 18"
    by (simp_all add: world_client_def)
  have "(420 :: 32 word) AND 18 = 0" by simp
  with collectAndRenameZips_selects_renames[OF world_client_staged d] sel paths pre show ?thesis
    by auto
qed

text \<open>
  C7 as stated fails on \<open>world_upper\<close>: \<^verbatim>\<open>App.ZIP\<close> is staged as \<^verbatim>\<open>App-1.0.0.zip\<close>, not
  with its own extension, and the copy of a file of mode 0664 has mode 0644 under umask 022.
\<close>

theorem collectAndRenameZips_extension_counterexample:
  "snd (collectAndRenameZips world_upper ''src'' ''downloads/1.0.0'' ''1.0.0'') = Inr [''App-1.0.0.zip'']
   \<and> snd (collectAndRenameZips world_upper ''src'' ''downloads/1.0.0'' ''1.0.0'') \<noteq> Inr [''App-1.0.0.ZIP'']
   \<and> map_option Mode (fs_files world_upper ''src/App.ZIP'') = Some 436
   \<and> map_option Mode (fs_files (fst (collectAndRenameZips world_upper ''src'' ''downloads/1.0.0'' ''1.0.0''))
        ''downloads/1.0.0/App-1.0.0.zip'') = Some 420"
  by code_simp

lemma checksum_loop_links:
  "checksum_loop sha w versionDir names links = Inr res \<Longrightarrow>
   \<exists>fs. length fs = length names
      \<and> (\<forall>i < length names. fs_files w (filepath_Join [versionDir, names ! i]) = Some (fs ! i))
      \<and> res = links @ map (\<lambda>(n, f). \<lparr>Link = filepath_Join [versionDir, n], Checksum = hex_EncodeToString (sha (Content f))\<rparr>) (zip names fs)"
proof (induction names arbitrary: links)
  case Nil
  then show ?case by simp
next
  case (Cons n names)
  from Cons.prems obtain f where f: "fs_files w (filepath_Join [versionDir, n]) = Some f"
    and rest: "checksum_loop sha w versionDir names
                 (links @ [\<lparr>Link = filepath_Join [versionDir, n], Checksum = hex_EncodeToString (sha (Content f))\<rparr>]) = Inr res"
    by (auto simp: computeChecksum_def os_Open_file Let_def split: sum.splits opened.splits)
  from Cons.IH[OF rest] obtain fs where fs: "length fs = length names"
    "\<forall>i < length names. fs_files w (filepath_Join [versionDir, names ! i]) = Some (fs ! i)"
    "res = (links @ [\<lparr>Link = filepath_Join [versionDir, n], Checksum = hex_EncodeToString (sha (Content f))\<rparr>])
        @ map (\<lambda>(n, f). \<lparr>Link = filepath_Join [versionDir, n], Checksum = hex_EncodeToString (sha (Content f))\<rparr>) (zip names fs)"
    by blast
  have "length (f # fs) = length (n # names)" using fs(1) by simp
  moreover have "\<forall>i < length (n # names). fs_files w (filepath_Join [versionDir, (n # names) ! i]) = Some ((f # fs) ! i)"
    using f fs(2) by (auto simp: nth_Cons split: nat.splits)
  moreover have "res = links @ map (\<lambda>(n, f). \<lparr>Link = filepath_Join [versionDir, n], Checksum = hex_EncodeToString (sha (Content f))\<rparr>) (zip (n # names) (f # fs))"
    using fs(3) by simp
  ultimately show ?case by blast
qed

text \<open>
  C6 on \<open>world_twins\<close>, whatever the hash function. Staging copies \<^verbatim>\<open>a.ZIP\<close> and then
  \<^verbatim>\<open>a.zip\<close> to the one staged path \<^verbatim>\<open>downloads/1.0.0/a-1.0.0.zip\<close>; the loop of \<^verbatim>\<open>main\<close>
  records two links to that path, both with the digest of the bytes of \<^verbatim>\<open>a.zip\<close>, so the
  checksum recorded for the staged copy of \<^verbatim>\<open>a.ZIP\<close> is not the digest of its bytes.
\<close>

theorem twins_one_checksum:
  "snd (collectAndRenameZips world_twins ''src'' ''downloads/1.0.0'' ''1.0.0'')
     = Inr [''a-1.0.0.zip'', ''a-1.0.0.zip'']
   \<and> checksum_loop sha256_Sum (fst (collectAndRenameZips world_twins ''src'' ''downloads/1.0.0'' ''1.0.0''))
        ''downloads/1.0.0'' [''a-1.0.0.zip'', ''a-1.0.0.zip''] []
     = Inr [\<lparr>Link = ''downloads/1.0.0/a-1.0.0.zip'', Checksum = hex_EncodeToString (sha256_Sum ''second'')\<rparr>,
            \<lparr>Link = ''downloads/1.0.0/a-1.0.0.zip'', Checksum = hex_EncodeToString (sha256_Sum ''second'')\<rparr>]
   \<and> map_option Content (fs_files world_twins ''src/a.ZIP'') = Some ''first''"
  by code_simp

section \<open>Lemmas on versions\<close>

lemma digit_cases:
  "isDigit c \<Longrightarrow> c = CHR ''0'' \<or> c = CHR ''1'' \<or> c = CHR ''2'' \<or> c = CHR ''3'' \<or> c = CHR ''4''
     \<or> c = CHR ''5'' \<or> c = CHR ''6'' \<or> c = CHR ''7'' \<or> c = CHR ''8'' \<or> c = CHR ''9''"
  by (auto simp: isDigit_def num_def)

lemma dval_lt: "isDigit c \<Longrightarrow> dval c < 10"
  by (drule digit_cases) (auto simp: dval_def)

lemma dval_zero: "isDigit c \<Longrightarrow> dval c = 0 \<longleftrightarrow> c = CHR ''0''"
  by (drule digit_cases) (auto simp: dval_def)

lemma dval_inj: "isDigit c \<Longrightarrow> isDigit d \<Longrightarrow> dval c = dval d \<Longrightarrow> c = d"
  by (drule digit_cases, drule digit_cases) (auto simp: dval_def)

lemma foldl_dec:
  "foldl (\<lambda>n c. 10 * n + (of_char c - 48)) a r = a * 10 ^ length r + dec_value r"
proof (induction r arbitrary: a)
  case Nil
  then show ?case by (simp add: dec_value_def)
next
  case (Cons c r)
  have "foldl (\<lambda>n c. 10 * n + (of_char c - 48)) a (c # r)
        = (10 * a + (of_char c - 48)) * 10 ^ length r + dec_value r"
    by (simp add: Cons.IH)
  moreover have "dec_value (c # r) = (of_char c - 48) * 10 ^ length r + dec_value r"
    by (simp add: dec_value_def Cons.IH[of "of_char c - 48"])
  ultimately show ?case by (simp add: algebra_simps)
qed

lemma dec_value_Cons: "dec_value (c # r) = dval c * 10 ^ length r + dec_value r"
  using foldl_dec[of "dval c" r] by (simp add: dec_value_def dval_def)

lemma dec_value_lt: "list_all isDigit r \<Longrightarrow> dec_value r < 10 ^ length r"
proof (induction r)
  case Nil
  then show ?case by (simp add: dec_value_def)
next
  case (Cons c r)
  then have "dval c \<le> 9" "dec_value r < 10 ^ length r"
    using dval_lt[of c] by auto
  then have "dval c * 10 ^ length r + dec_value r < 9 * 10 ^ length r + 10 ^ length r"
    by (meson add_le_less_mono mult_le_mono1)
  then show ?case by (simp add: dec_value_Cons)
qed

lemma dec_value_same_length:
  "length s = length t \<Longrightarrow> list_all isDigit s \<Longrightarrow> list_all isDigit t \<Longrightarrow> dec_value s = dec_value t \<Longrightarrow> s = t"
proof (induction s t rule: list_induct2)
  case Nil
  then show ?case by simp
next
  case (Cons c s d t)
  let ?p = "(10::nat) ^ length t"
  have b: "dec_value s < ?p" "dec_value t < ?p"
    using Cons.prems Cons.hyps dec_value_lt[of s] dec_value_lt[of t] by auto
  have e: "dval c * ?p + dec_value s = dval d * ?p + dec_value t"
    using Cons.prems(3) Cons.hyps by (simp add: dec_value_Cons)
  have "(dval c * ?p + dec_value s) div ?p = dval c" "(dval d * ?p + dec_value t) div ?p = dval d"
    using b by simp_all
  with e have cd: "dval c = dval d" by simp
  with e have "dec_value s = dec_value t" by simp
  with Cons cd show ?case using dval_inj[of c d] by auto
qed

lemma dec_value_ge:
  assumes "list_all isDigit (c # r)" "c \<noteq> CHR ''0''"
  shows "10 ^ length r \<le> dec_value (c # r)"
proof -
  have "dval c \<noteq> 0" using assms dval_zero[of c] by simp
  then have "1 \<le> dval c" by simp
  then have "1 * 10 ^ length r \<le> dval c * 10 ^ length r" by (rule mult_le_mono1)
  then have "10 ^ length r \<le> dval c * 10 ^ length r" by simp
  also have "\<dots> \<le> dval c * 10 ^ length r + dec_value r" by simp
  finally show ?thesis by (simp only: dec_value_Cons)
qed

lemma canon_length_le:
  assumes "canon s" "canon t" "dec_value s = dec_value t"
  shows "length s \<le> length t"
proof (rule ccontr)
  assume "\<not> length s \<le> length t"
  then have lt: "length t < length s" by simp
  obtain c r where s: "s = c # r" using assms(1) by (cases s) (auto simp: canon_def)
  with lt assms(2) have "length s > 1" by (cases t) (auto simp: canon_def)
  with assms(1) s have "c \<noteq> CHR ''0''" by (auto simp: canon_def)
  with assms(1) s have "10 ^ length r \<le> dec_value s" using dec_value_ge[of c r] by (simp add: canon_def)
  moreover have "dec_value t < 10 ^ length t" using assms(2) dec_value_lt by (simp add: canon_def)
  moreover have "(10::nat) ^ length t \<le> 10 ^ length r" using lt s by (simp add: power_increasing)
  ultimately show False using assms(3) by simp
qed

lemma canon_inj:
  assumes "canon s" "canon t" "dec_value s = dec_value t"
  shows "s = t"
proof -
  have "length s \<le> length t" using assms by (rule canon_length_le)
  moreover have "length t \<le> length s" using assms(2,1) assms(3)[symmetric] by (rule canon_length_le)
  ultimately have "length s = length t" by simp
  moreover have "list_all isDigit s" "list_all isDigit t" using assms(1,2) unfolding canon_def by blast+
  ultimately show ?thesis using assms(3) by (rule dec_value_same_length)
qed

lemma ParseUint_Some:
  assumes "strconv_ParseUint p = Some n"
  shows "p \<noteq> []" "list_all isDigit p" "unat n = dec_value p"
proof -
  from assms have a: "p \<noteq> []" "list_all isDigit p" "dec_value p < 2 ^ 64" "n = word_of_nat (dec_value p)"
    by (auto simp: strconv_ParseUint_def split: if_splits)
  show "p \<noteq> []" "list_all isDigit p" using a by auto
  show "unat n = dec_value p" using a(3,4) by (simp add: unsigned_of_nat take_bit_nat_eq_self)
qed

lemma partKey_inj:
  assumes "wfpart s" "wfpart t" "partKey s = partKey t"
  shows "s = t"
proof (cases "strconv_ParseUint s")
  case None
  with assms show ?thesis
    by (auto simp: partKey_def wfpart_def split: option.splits if_splits)
next
  case (Some a)
  with assms obtain b where b: "strconv_ParseUint t = Some b" "unat a = unat b"
    by (auto simp: partKey_def wfpart_def split: option.splits if_splits)
  have "canon s" using ParseUint_Some[OF Some] assms(1) by (simp add: canon_def wfpart_def)
  moreover have "canon t" using ParseUint_Some[OF b(1)] assms(2) by (simp add: canon_def wfpart_def)
  moreover have "dec_value s = dec_value t"
    using ParseUint_Some(3)[OF Some] ParseUint_Some(3)[OF b(1)] b(2) by simp
  ultimately show ?thesis by (rule canon_inj)
qed

lemma comparePrePart_key:
  "comparePrePart s t = (if s = t then 0 else if partKey t < partKey s then 1 else -1)"
  by (auto simp: comparePrePart_def partKey_def word_less_nat_alt split: option.splits)

lemma comparePrePart_wf:
  assumes "wfpart s" "wfpart t"
  shows "comparePrePart s t = (if partKey s < partKey t then -1 else if partKey t < partKey s then 1 else 0)"
proof (cases "s = t")
  case True
  then show ?thesis by (simp add: comparePrePart_key)
next
  case False
  then have "partKey s \<noteq> partKey t" using partKey_inj[OF assms] by blast
  then show ?thesis using False by (auto simp: comparePrePart_key)
qed

lemma comparePrePart_Nil: "wfpart s \<Longrightarrow> comparePrePart s [] = 1" "wfpart s \<Longrightarrow> comparePrePart [] s = -1"
  by (auto simp: comparePrePart_def wfpart_def)

declare comparePrerelease_loop.simps [simp del]

lemma comparePrerelease_loop_key:
  "list_all wfpart ss \<Longrightarrow> list_all wfpart ts \<Longrightarrow>
   comparePrerelease_loop i ss ts =
     (if map partKey (drop i ss) < map partKey (drop i ts) then -1
      else if map partKey (drop i ts) < map partKey (drop i ss) then 1 else 0)"
proof (induction i ss ts rule: comparePrerelease_loop.induct)
  case (1 i ss ts)
  note wf = "1.prems"
  consider (both) "i < length ss" "i < length ts" | (left) "i < length ss" "\<not> i < length ts"
    | (right) "\<not> i < length ss" "i < length ts" | (none) "\<not> i < length ss" "\<not> i < length ts"
    by blast
  then show ?case
  proof cases
    case both
    have ds: "drop i ss = ss ! i # drop (Suc i) ss" and dt: "drop i ts = ts ! i # drop (Suc i) ts"
      using both by (simp_all add: Cons_nth_drop_Suc)
    have w: "wfpart (ss ! i)" "wfpart (ts ! i)"
      using wf both by (simp_all add: list_all_length)
    show ?thesis
    proof (cases "comparePrePart (ss ! i) (ts ! i) = 0")
      case True
      then have eq: "ss ! i = ts ! i" by (auto simp: comparePrePart_key split: if_splits)
      have "comparePrerelease_loop i ss ts = comparePrerelease_loop (i + 1) ss ts"
        using both True by (subst comparePrerelease_loop.simps) (simp add: Let_def)
      also have "\<dots> = (if map partKey (drop (i + 1) ss) < map partKey (drop (i + 1) ts) then -1
        else if map partKey (drop (i + 1) ts) < map partKey (drop (i + 1) ss) then 1 else 0)"
      proof (rule "1.IH"[OF refl refl refl _ refl refl refl _ wf])
        show "i < (if length ss < length ts then length ts else length ss)" using both by simp
        show "\<not> comparePrePart (if i < length ss then ss ! i else []) (if i < length ts then ts ! i else []) \<noteq> 0"
          using both True by simp
      qed
      finally show ?thesis using eq by (simp add: ds dt)
    next
      case False
      have "comparePrerelease_loop i ss ts = comparePrePart (ss ! i) (ts ! i)"
        using both False by (subst comparePrerelease_loop.simps) (simp add: Let_def)
      then show ?thesis using False comparePrePart_wf[OF w] by (auto simp: ds dt split: if_splits)
    qed
  next
    case left
    have ds: "drop i ss = ss ! i # drop (Suc i) ss" using left by (simp add: Cons_nth_drop_Suc)
    have w: "wfpart (ss ! i)" using wf left by (simp add: list_all_length)
    have "comparePrerelease_loop i ss ts = 1"
      using left comparePrePart_Nil(1)[OF w] by (subst comparePrerelease_loop.simps) (simp add: Let_def)
    then show ?thesis using left by (simp add: ds)
  next
    case right
    have dt: "drop i ts = ts ! i # drop (Suc i) ts" using right by (simp add: Cons_nth_drop_Suc)
    have w: "wfpart (ts ! i)" using wf right by (simp add: list_all_length)
    have "comparePrerelease_loop i ss ts = -1"
      using right comparePrePart_Nil(2)[OF w] by (subst comparePrerelease_loop.simps) (simp add: Let_def)
    then show ?thesis using right by (simp add: dt)
  next
    case none
    have "comparePrerelease_loop i ss ts = 0"
      using none by (subst comparePrerelease_loop.simps) (simp add: Let_def)
    then show ?thesis using none by simp
  qed
qed

lemma semver_Compare_key:
  assumes "wfver v" "wfver w"
  shows "semver_Compare v w = (if verKey v < verKey w then -1 else if verKey w < verKey v then 1 else 0)"
proof -
  have pre: "pre v \<noteq> [] \<Longrightarrow> pre w \<noteq> [] \<Longrightarrow>
     comparePrerelease (pre v) (pre w) =
       (if map partKey (strings_Split CHR ''.'' (pre v)) < map partKey (strings_Split CHR ''.'' (pre w)) then -1
        else if map partKey (strings_Split CHR ''.'' (pre w)) < map partKey (strings_Split CHR ''.'' (pre v)) then 1 else 0)"
    using assms comparePrerelease_loop_key[of "strings_Split CHR ''.'' (pre v)" "strings_Split CHR ''.'' (pre w)" 0]
    by (simp add: wfver_def wfpre_def comparePrerelease_def)
  show ?thesis
    using pre
    by (auto simp: semver_Compare_def compareSegment_def verKey_def word_less_nat_alt word_le_nat_alt)
qed

lemma semver_GreaterThan_key:
  "wfver v \<Longrightarrow> wfver w \<Longrightarrow> semver_GreaterThan v w \<longleftrightarrow> verKey w < verKey v"
  by (auto simp: semver_GreaterThan_def semver_Compare_key)

lemma containsOnly_num: "containsOnly p num = list_all isDigit p"
  by (simp add: containsOnly_def isDigit_def[abs_def])

lemma unat_inc: "(x :: 64 word) \<noteq> - 1 \<Longrightarrow> unat (x + 1) = unat x + 1"
proof -
  assume "x \<noteq> - 1"
  then have "1 + x \<noteq> 0" by (simp add: eq_neg_iff_add_eq_0 add.commute)
  then have "unat (1 + x) = Suc (unat x)" by (rule unatSuc)
  then show ?thesis by (simp add: add.commute)
qed

lemma match_pre_meta_g5:
  "match_pre_meta r3 = Some (g5, g8) \<Longrightarrow> g5 = [] \<or> idents_ok g5"
  by (cases r3) (auto simp: match_pre_meta_def Let_def split: if_splits list.splits)

lemma versionRegex_match_m5:
  assumes "versionRegex_match s = Some m"
  shows "m5 m = [] \<or> idents_ok (m5 m)"
proof -
  from assms obtain r3 g8 where "match_pre_meta r3 = Some (m5 m, g8)"
    by (auto simp: versionRegex_match_def Let_def split: option.splits if_splits)
  then show ?thesis by (rule match_pre_meta_g5)
qed

lemma semver_NewVersion_wf:
  assumes "semver_NewVersion s = Some v"
  shows "wfver v"
proof -
  from assms obtain m where m: "versionRegex_match s = Some m" and p: "pre v = m5 m"
    and val: "m5 m \<noteq> [] \<longrightarrow> validatePrerelease (m5 m)"
    by (auto simp: semver_NewVersion_def split: option.splits if_splits)
  show ?thesis
  proof (cases "pre v = []")
    case True
    then show ?thesis by (simp add: wfver_def wfpre_def)
  next
    case False
    with p val versionRegex_match_m5[OF m] have i: "idents_ok (pre v)" and va: "validatePrerelease (pre v)"
      by auto
    have "list_all wfpart (strings_Split CHR ''.'' (pre v))"
      unfolding list_all_iff
    proof
      fix part assume part: "part \<in> set (strings_Split CHR ''.'' (pre v))"
      with i have "part \<noteq> []" by (auto simp: idents_ok_def list_all_iff)
      moreover from va part have "list_all isDigit part \<longrightarrow> \<not> (length part > 1 \<and> hd part = CHR ''0'')"
        by (auto simp: validatePrerelease_def list_all_iff containsOnly_num[unfolded list_all_iff] split: if_splits)
      ultimately show "wfpart part" by (simp add: wfpart_def)
    qed
    then show ?thesis by (simp add: wfver_def wfpre_def)
  qed
qed

lemma version_zero_wf: "wfver version_zero"
  by (simp add: wfver_def wfpre_def version_zero_def)

lemma highest_loop_max:
  assumes "wfver h"
  shows "wfver (highest_loop entries h)
     \<and> verKey h \<le> verKey (highest_loop entries h)
     \<and> (\<forall>e \<in> set entries. \<forall>v. semver_NewVersion (Version e) = Some v \<longrightarrow> verKey v \<le> verKey (highest_loop entries h))
     \<and> (highest_loop entries h = h \<or> (\<exists>e \<in> set entries. semver_NewVersion (Version e) = Some (highest_loop entries h)))"
  using assms
proof (induction entries arbitrary: h)
  case Nil
  then show ?case by simp
next
  case (Cons e entries)
  show ?case
  proof (cases "semver_NewVersion (Version e)")
    case None
    with Cons.IH[OF Cons.prems] show ?thesis by auto
  next
    case (Some v)
    then have wv: "wfver v" by (rule semver_NewVersion_wf)
    show ?thesis
    proof (cases "semver_GreaterThan v h")
      case True
      then have lt: "verKey h < verKey v" using semver_GreaterThan_key[OF wv Cons.prems] by simp
      have eq: "highest_loop (e # entries) h = highest_loop entries v" using Some True by simp
      from Cons.IH[OF wv] have ih: "wfver (highest_loop entries v)"
        "verKey v \<le> verKey (highest_loop entries v)"
        "\<forall>e \<in> set entries. \<forall>u. semver_NewVersion (Version e) = Some u \<longrightarrow> verKey u \<le> verKey (highest_loop entries v)"
        "highest_loop entries v = v \<or> (\<exists>e \<in> set entries. semver_NewVersion (Version e) = Some (highest_loop entries v))"
        by blast+
      have "verKey h \<le> verKey (highest_loop entries v)" using lt ih(2) by simp
      moreover have "\<forall>x \<in> set (e # entries). \<forall>u. semver_NewVersion (Version x) = Some u \<longrightarrow> verKey u \<le> verKey (highest_loop entries v)"
        using ih(2,3) Some by auto
      moreover have "highest_loop entries v = h \<or> (\<exists>x \<in> set (e # entries). semver_NewVersion (Version x) = Some (highest_loop entries v))"
        using ih(4) Some by auto
      ultimately show ?thesis unfolding eq using ih(1) by blast
    next
      case False
      then have le: "verKey v \<le> verKey h" using semver_GreaterThan_key[OF wv Cons.prems] by simp
      have eq: "highest_loop (e # entries) h = highest_loop entries h" using Some False by simp
      from Cons.IH[OF Cons.prems] have ih: "wfver (highest_loop entries h)"
        "verKey h \<le> verKey (highest_loop entries h)"
        "\<forall>e \<in> set entries. \<forall>u. semver_NewVersion (Version e) = Some u \<longrightarrow> verKey u \<le> verKey (highest_loop entries h)"
        "highest_loop entries h = h \<or> (\<exists>e \<in> set entries. semver_NewVersion (Version e) = Some (highest_loop entries h))"
        by blast+
      have "\<forall>x \<in> set (e # entries). \<forall>u. semver_NewVersion (Version x) = Some u \<longrightarrow> verKey u \<le> verKey (highest_loop entries h)"
        using ih(2,3) Some le by auto
      moreover have "highest_loop entries h = h \<or> (\<exists>x \<in> set (e # entries). semver_NewVersion (Version x) = Some (highest_loop entries h))"
        using ih(4) by auto
      ultimately show ?thesis unfolding eq using ih(1,2) by blast
    qed
  qed
qed

lemma semver_IncPatch_wf: "wfver (semver_IncPatch v)"
  by (simp add: semver_IncPatch_def wfver_def wfpre_def)

lemma semver_IncPatch_key:
  assumes "pre v \<noteq> [] \<or> patch v \<noteq> - 1"
  shows "verKey v < verKey (semver_IncPatch v)"
proof (cases "pre v = []")
  case True
  with assms have "patch v \<noteq> - 1" by simp
  then have "unat (patch v + 1) = unat (patch v) + 1" by (rule unat_inc)
  with True show ?thesis by (simp add: verKey_def semver_IncPatch_def)
next
  case False
  then show ?thesis by (simp add: verKey_def semver_IncPatch_def)
qed

section \<open>Properties of version resolution\<close>

lemmas semver_eval = semver_NewVersion_def versionRegex_match_def match_pre_meta_def opt_segment_def segment_value_def
  strconv_ParseUint_def dec_value_def isDigit_def idents_ok_def containsOnly_def allowed_def num_def
  validatePrerelease_def validateMetadata_def semver_String_def comparePrePart_def comparePrerelease_def
  compareSegment_def semver_Compare_def semver_GreaterThan_def semver_IncPatch_def version_zero_def
  autoVersion_def pickVersion_def Let_def

lemma semver_IncPatch_fields:
  "semver_IncPatch v =
     \<lparr>major = major v, minor = minor v, patch = (if pre v = [] then patch v + 1 else patch v),
      pre = [], metadata = []\<rparr>"
  by (cases v) (simp add: semver_IncPatch_def)

text \<open>
  C1, as the code has it. In automatic mode the loop ends with the starting version 0.0.0
  or with the parsed version of an entry, and no parsable entry and not 0.0.0 is greater
  than it; entries that do not parse are passed over. The result is that maximum with
  pre-release and metadata cleared and, when the maximum has no pre-release, the patch
  number incremented; a maximum with a pre-release keeps its patch number. Unless the
  maximum has no pre-release and the patch number \<open>2^64 - 1\<close>, the result is greater than
  every parsable version of the manifest.
\<close>

theorem autoVersion_above_manifest:
  "pickVersion [] entries = Inr (semver_String (semver_IncPatch (highest_loop entries version_zero)))
   \<and> (highest_loop entries version_zero = version_zero
        \<or> (\<exists>e \<in> set entries. semver_NewVersion (Version e) = Some (highest_loop entries version_zero)))
   \<and> \<not> semver_GreaterThan version_zero (highest_loop entries version_zero)
   \<and> (\<forall>e \<in> set entries. \<forall>v. semver_NewVersion (Version e) = Some v
         \<longrightarrow> \<not> semver_GreaterThan v (highest_loop entries version_zero))
   \<and> semver_IncPatch (highest_loop entries version_zero) =
        \<lparr>major = major (highest_loop entries version_zero), minor = minor (highest_loop entries version_zero),
         patch = (if pre (highest_loop entries version_zero) = [] then patch (highest_loop entries version_zero) + 1
                  else patch (highest_loop entries version_zero)),
         pre = [], metadata = []\<rparr>
   \<and> (pre (highest_loop entries version_zero) \<noteq> [] \<or> patch (highest_loop entries version_zero) \<noteq> - 1
        \<longrightarrow> (\<forall>e \<in> set entries. \<forall>v. semver_NewVersion (Version e) = Some v
              \<longrightarrow> semver_GreaterThan (semver_IncPatch (highest_loop entries version_zero)) v))"
proof -
  let ?h = "highest_loop entries version_zero"
  note m = highest_loop_max[OF version_zero_wf, of entries]
  from m have wh: "wfver ?h" and z: "verKey version_zero \<le> verKey ?h"
    and mx: "\<forall>e \<in> set entries. \<forall>v. semver_NewVersion (Version e) = Some v \<longrightarrow> verKey v \<le> verKey ?h"
    and src: "?h = version_zero \<or> (\<exists>e \<in> set entries. semver_NewVersion (Version e) = Some ?h)"
    by blast+
  have 1: "pickVersion [] entries = Inr (semver_String (semver_IncPatch ?h))"
    by (simp add: pickVersion_def autoVersion_def)
  have 3: "\<not> semver_GreaterThan version_zero ?h"
    using z semver_GreaterThan_key[OF version_zero_wf wh] by simp
  have 4: "\<forall>e \<in> set entries. \<forall>v. semver_NewVersion (Version e) = Some v \<longrightarrow> \<not> semver_GreaterThan v ?h"
  proof (intro ballI allI impI)
    fix e v assume "e \<in> set entries" "semver_NewVersion (Version e) = Some v"
    then have "verKey v \<le> verKey ?h" "wfver v" using mx semver_NewVersion_wf by blast+
    then show "\<not> semver_GreaterThan v ?h" using semver_GreaterThan_key[OF _ wh, of v] by simp
  qed
  have 6: "\<forall>e \<in> set entries. \<forall>v. semver_NewVersion (Version e) = Some v
              \<longrightarrow> semver_GreaterThan (semver_IncPatch ?h) v"
    if ok: "pre ?h \<noteq> [] \<or> patch ?h \<noteq> - 1"
  proof (intro ballI allI impI)
    fix e v assume "e \<in> set entries" "semver_NewVersion (Version e) = Some v"
    then have "verKey v \<le> verKey ?h" "wfver v" using mx semver_NewVersion_wf by blast+
    moreover have "verKey ?h < verKey (semver_IncPatch ?h)" using ok by (rule semver_IncPatch_key)
    ultimately show "semver_GreaterThan (semver_IncPatch ?h) v"
      using semver_GreaterThan_key[OF semver_IncPatch_wf, of v ?h] by simp
  qed
  from 1 src 3 4 semver_IncPatch_fields[of ?h] 6 show ?thesis by blast
qed

lemma manifest_mixed_highest:
  "highest_loop manifest_mixed version_zero = \<lparr>major = 1, minor = 10, patch = 0, pre = [], metadata = []\<rparr>"
  by (simp add: manifest_mixed_def semver_eval)

theorem autoVersion_above_manifest_witness:
  "pickVersion [] manifest_mixed = Inr ''1.10.1''
   \<and> semver_GreaterThan \<lparr>major = 1, minor = 10, patch = 1, pre = [], metadata = []\<rparr>
         \<lparr>major = 1, minor = 10, patch = 0, pre = [], metadata = []\<rparr>
   \<and> semver_GreaterThan \<lparr>major = 1, minor = 10, patch = 1, pre = [], metadata = []\<rparr>
         \<lparr>major = 1, minor = 9, patch = 9, pre = ''rc.1'', metadata = []\<rparr>"
proof -
  note t = autoVersion_above_manifest[of manifest_mixed, unfolded manifest_mixed_highest]
  have inc: "semver_IncPatch \<lparr>major = 1, minor = 10, patch = 0, pre = [], metadata = []\<rparr>
             = \<lparr>major = 1, minor = 10, patch = 1, pre = [], metadata = []\<rparr>"
    by (simp add: semver_IncPatch_def)
  have ok: "pre \<lparr>major = 1, minor = 10, patch = 0, pre = [], metadata = []\<rparr> \<noteq> []
            \<or> patch \<lparr>major = 1, minor = 10, patch = 0, pre = [], metadata = []\<rparr> \<noteq> (- 1 :: 64 word)"
    by simp
  from t ok have all: "\<forall>e \<in> set manifest_mixed. \<forall>v. semver_NewVersion (Version e) = Some v
        \<longrightarrow> semver_GreaterThan \<lparr>major = 1, minor = 10, patch = 1, pre = [], metadata = []\<rparr> v"
    unfolding inc by blast
  have e1: "\<lparr>Version = ''1.10.0'', Date = 3, Links = []\<rparr> \<in> set manifest_mixed"
    and e2: "\<lparr>Version = ''1.9.9-rc.1'', Date = 4, Links = []\<rparr> \<in> set manifest_mixed"
    by (simp_all add: manifest_mixed_def)
  have p1: "semver_NewVersion ''1.10.0'' = Some \<lparr>major = 1, minor = 10, patch = 0, pre = [], metadata = []\<rparr>"
    and p2: "semver_NewVersion ''1.9.9-rc.1'' = Some \<lparr>major = 1, minor = 9, patch = 9, pre = ''rc.1'', metadata = []\<rparr>"
    by (simp_all add: semver_eval)
  from t have "pickVersion [] manifest_mixed
      = Inr (semver_String (semver_IncPatch \<lparr>major = 1, minor = 10, patch = 0, pre = [], metadata = []\<rparr>))"
    by blast
  then have "pickVersion [] manifest_mixed = Inr ''1.10.1''"
    unfolding inc by (simp add: semver_String_def num_def)
  moreover from all e1 p1 have "semver_GreaterThan \<lparr>major = 1, minor = 10, patch = 1, pre = [], metadata = []\<rparr>
         \<lparr>major = 1, minor = 10, patch = 0, pre = [], metadata = []\<rparr>"
    by fastforce
  moreover from all e2 p2 have "semver_GreaterThan \<lparr>major = 1, minor = 10, patch = 1, pre = [], metadata = []\<rparr>
         \<lparr>major = 1, minor = 9, patch = 9, pre = ''rc.1'', metadata = []\<rparr>"
    by fastforce
  ultimately show ?thesis by blast
qed

text \<open>
  C1 as stated fails: from \<^verbatim>\<open>1.2.3-beta\<close> the result is \<^verbatim>\<open>1.2.3\<close>, the patch number not
  incremented; and from patch number \<open>2^64 - 1\<close> the increment wraps to \<^verbatim>\<open>0.0.0\<close>, which is
  not greater.
\<close>

theorem autoVersion_counterexample:
  "pickVersion [] [\<lparr>Version = ''1.2.3-beta'', Date = 1, Links = []\<rparr>] = Inr ''1.2.3''
   \<and> pickVersion [] [\<lparr>Version = ''0.0.18446744073709551615'', Date = 1, Links = []\<rparr>] = Inr ''0.0.0''
   \<and> semver_NewVersion ''0.0.18446744073709551615''
        = Some \<lparr>major = 0, minor = 0, patch = 18446744073709551615, pre = [], metadata = []\<rparr>
   \<and> \<not> semver_GreaterThan \<lparr>major = 0, minor = 0, patch = 0, pre = [], metadata = []\<rparr>
         \<lparr>major = 0, minor = 0, patch = 18446744073709551615, pre = [], metadata = []\<rparr>"
  by (simp add: semver_eval)

lemma takeWhile_digits: "list_all isDigit a \<Longrightarrow> \<not> isDigit c \<Longrightarrow> takeWhile isDigit (a @ c # b) = a"
  by (induction a) auto

lemma dropWhile_digits: "list_all isDigit a \<Longrightarrow> \<not> isDigit c \<Longrightarrow> dropWhile isDigit (a @ c # b) = c # b"
  by (induction a) auto

lemma NewVersion_two_numbers:
  assumes a: "a \<noteq> []" "list_all isDigit a" "dec_value a < 2 ^ 64"
    and b: "b \<noteq> []" "list_all isDigit b" "dec_value b < 2 ^ 64"
  shows "semver_NewVersion (a @ ''.'' @ b) =
     Some \<lparr>major = word_of_nat (dec_value a), minor = word_of_nat (dec_value b), patch = 0, pre = [], metadata = []\<rparr>"
proof -
  have nd: "\<not> isDigit CHR ''.''" "\<not> isDigit CHR ''v''" by (simp_all add: isDigit_def num_def)
  obtain c r where cr: "a = c # r" using a(1) by (cases a) auto
  with a(2) nd(2) have cv: "c \<noteq> CHR ''v''" by auto
  have tb: "takeWhile isDigit b = b" "dropWhile isDigit b = []"
    using b(2) by (simp_all add: list_all_iff)
  have s0: "(case a @ ''.'' @ b of [] \<Rightarrow> [] | c # r \<Rightarrow> if c = CHR ''v'' then r else a @ ''.'' @ b) = a @ CHR ''.'' # b"
    using cr cv by simp
  have m: "versionRegex_match (a @ ''.'' @ b) = Some \<lparr>m1 = a, m2 = CHR ''.'' # b, m3 = [], m5 = [], m8 = []\<rparr>"
    unfolding versionRegex_match_def s0
    using a(1) b(1) by (simp add: tb takeWhile_digits[OF a(2) nd(1)] dropWhile_digits[OF a(2) nd(1)]
        opt_segment_def match_pre_meta_def)
  show ?thesis
    unfolding semver_NewVersion_def m
    using a b by (simp add: segment_value_def strconv_ParseUint_def)
qed

lemma pickVersion_two_components: "pickVersion ''1.2'' entries = Inr ''1.2.0''"
  by (simp add: semver_eval)

lemma pickVersion_examples:
  "pickVersion ''1.2.3'' entries = Inr ''1.2.3''"
  "pickVersion ''bogus'' entries = Inl InvalidVersion"
  "pickVersion ''1.2.3.4'' entries = Inl InvalidVersion"
  by (simp_all add: semver_eval)

section \<open>Properties of the manifest file and of the pipeline\<close>

lemmas os_eval = os_Open_def os_OpenFile_create_trunc_def io_Copy_def os_ReadDir_def os_ReadFile_def os_WriteFile_def
  os_MkdirAll.simps os_Mkdir_def mkdir_parent_def filepath_Dir_def is_dir_def may_read_def may_write_def
  opened_Mode_def copyFile_def collectAndRenameZips_def computeChecksum_def writeEntries_def readEntries_def
  run_remote_def parseHostPort_def ensureRemoteDir_def uploadWithScp_def updateLatestFileSymlinks_def
  RunBuildAll_def build_script_def dlDir_def trimRight_slash_def publish_def release_def main_def
  filepath_Ext_def filepath_Join_def filepath_Clean_def strings_EqualFold_def ascii_lower_def
  strings_TrimSuffix_def strings_HasSuffix_def is_remote_def

lemma pickVersion_empty: "pickVersion [] [] = Inr ''0.0.1''"
  by (simp add: pickVersion_def autoVersion_def version_zero_def semver_IncPatch_def semver_String_def num_def)

lemma publish_dry:
  assumes "cfg_dryRun cfg"
  shows "publish env cfg w newVersion versionDir files =
     ensureRemoteDir env w (cfg_hostPort cfg) (cfg_user cfg)
       (trimRight_slash (cfg_remoteDir cfg) @ ''/'' @ dlDir @ ''/'' @ newVersion)"
  using assms by (auto simp: publish_def Let_def split: prod.splits option.splits)

lemma ensureRemoteDir_issued:
  "\<exists>c. prog c = ''ssh'' \<and> issued (fst (ensureRemoteDir env w hostPort user remotePath)) = issued w @ [c]"
  by (auto simp: ensureRemoteDir_def run_remote_def split: prod.splits bool.splits)

text \<open>
  C2 on \<open>world_release\<close>, whatever the codec, the hash and the clock, with a build script
  that succeeds and a remote host that accepts every command. The dry run ends with exit
  status 0; the manifest file holds the new entry; and the commands run are the build and
  then \<^verbatim>\<open>ssh user@host.ext "mkdir -p /home/user/www/public_html/downloads/0.0.1"\<close>: the
  remote directory is created in a dry run.
\<close>

theorem dry_run_creates_remote_dir:
  "snd (main \<lparr>e_marshal = marshal, e_unmarshal = unmarshal, e_sha256 = sha, e_quote = quote, e_now = now,
             e_build = (\<lambda>v w. (w, True)), e_remote_ok = (\<lambda>c. True)\<rparr> cfg_dry world_release) = None
   \<and> issued (fst (main \<lparr>e_marshal = marshal, e_unmarshal = unmarshal, e_sha256 = sha, e_quote = quote, e_now = now,
             e_build = (\<lambda>v w. (w, True)), e_remote_ok = (\<lambda>c. True)\<rparr> cfg_dry world_release))
     = [\<lparr>prog = ''bash'', args = [''../RelayClient/build/build-all.sh'', ''0.0.1'']\<rparr>,
        \<lparr>prog = ''ssh'', args = [''user@host.ext'', ''mkdir -p /home/user/www/public_html/downloads/0.0.1'']\<rparr>]
   \<and> filter is_remote (issued (fst (main \<lparr>e_marshal = marshal, e_unmarshal = unmarshal, e_sha256 = sha,
             e_quote = quote, e_now = now, e_build = (\<lambda>v w. (w, True)), e_remote_ok = (\<lambda>c. True)\<rparr> cfg_dry world_release)))
     \<noteq> []
   \<and> fs_files (fst (main \<lparr>e_marshal = marshal, e_unmarshal = unmarshal, e_sha256 = sha, e_quote = quote, e_now = now,
             e_build = (\<lambda>v w. (w, True)), e_remote_ok = (\<lambda>c. True)\<rparr> cfg_dry world_release)) ''relayClient.json''
     = Some \<lparr>Content = marshal [\<lparr>Version = ''0.0.1'', Date = now,
                 Links = [\<lparr>Link = ''downloads/0.0.1/client-0.0.1.zip'', Checksum = hex_EncodeToString (sha ''PK'')\<rparr>]\<rparr>],
             Mode = 420\<rparr>"
  by (simp add: os_eval world_release_def cfg_dry_def pickVersion_empty Let_def)

text \<open>
  C3 on the flag value \<^verbatim>\<open>1.2\<close>, whatever the manifest holds. The code does validate the
  flag, whose help text reads \<^verbatim>\<open>manually specify new version (format a.b.c)\<close>: \<^verbatim>\<open>bogus\<close> and
  \<^verbatim>\<open>1.2.3.4\<close> fail with \<open>InvalidVersion\<close>, and \<^verbatim>\<open>1.2.3\<close> is taken as it is. But it validates
  with the parser that fills in missing components: \<^verbatim>\<open>1.2\<close> does not fail, it resolves to
  \<^verbatim>\<open>1.2.0\<close>, and the run on \<open>world_release\<close> with \<^verbatim>\<open>-version 1.2\<close> ends with exit status 0
  and a manifest whose one entry has version \<^verbatim>\<open>1.2.0\<close>.
\<close>

theorem explicit_version_two_components:
  "pickVersion ''1.2'' entries = Inr ''1.2.0''
   \<and> pickVersion ''1.2'' entries \<noteq> Inl InvalidVersion
   \<and> pickVersion ''1.2.3'' entries = Inr ''1.2.3''
   \<and> pickVersion ''bogus'' entries = Inl InvalidVersion
   \<and> pickVersion ''1.2.3.4'' entries = Inl InvalidVersion
   \<and> snd (main \<lparr>e_marshal = marshal, e_unmarshal = unmarshal, e_sha256 = sha, e_quote = quote, e_now = now,
             e_build = (\<lambda>v w. (w, True)), e_remote_ok = (\<lambda>c. True)\<rparr> cfg_manual world_release) = None
   \<and> fs_files (fst (main \<lparr>e_marshal = marshal, e_unmarshal = unmarshal, e_sha256 = sha, e_quote = quote, e_now = now,
             e_build = (\<lambda>v w. (w, True)), e_remote_ok = (\<lambda>c. True)\<rparr> cfg_manual world_release)) ''relayClient.json''
     = Some \<lparr>Content = marshal [\<lparr>Version = ''1.2.0'', Date = now,
                 Links = [\<lparr>Link = ''downloads/1.2.0/client-1.2.0.zip'', Checksum = hex_EncodeToString (sha ''PK'')\<rparr>]\<rparr>],
             Mode = 420\<rparr>"
proof -
  have "snd (main \<lparr>e_marshal = marshal, e_unmarshal = unmarshal, e_sha256 = sha, e_quote = quote, e_now = now,
             e_build = (\<lambda>v w. (w, True)), e_remote_ok = (\<lambda>c. True)\<rparr> cfg_manual world_release) = None
   \<and> fs_files (fst (main \<lparr>e_marshal = marshal, e_unmarshal = unmarshal, e_sha256 = sha, e_quote = quote, e_now = now,
             e_build = (\<lambda>v w. (w, True)), e_remote_ok = (\<lambda>c. True)\<rparr> cfg_manual world_release)) ''relayClient.json''
     = Some \<lparr>Content = marshal [\<lparr>Version = ''1.2.0'', Date = now,
                 Links = [\<lparr>Link = ''downloads/1.2.0/client-1.2.0.zip'', Checksum = hex_EncodeToString (sha ''PK'')\<rparr>]\<rparr>],
             Mode = 420\<rparr>"
    by (simp add: os_eval world_release_def cfg_manual_def pickVersion_two_components Let_def)
  then show ?thesis
    by (simp add: pickVersion_two_components pickVersion_examples)
qed








end
